theory Spec2Isabelle
  imports Complex_Main "HOL-Library.Char_ord" "HOL-Library.List_Lexorder"
    "HOL-Library.Product_Lexorder"
begin

section \<open>Shared types\<close>

text \<open>
  A Python float is modelled as the real number it denotes; \<^verbatim>\<open>time.time()\<close> and every
  stored \<^verbatim>\<open>expires_at\<close> are finite floats. Every operation takes the clock reading \<open>now\<close>
  of the call as an explicit argument (one reading per call). Python's \<^verbatim>\<open>None\<close> is
  \<open>None\<close>: a cache value is a \<open>'v option\<close>, so that a stored \<^verbatim>\<open>None\<close> and the \<^verbatim>\<open>None\<close>
  returned for a missing key are the same value, as in Python.

  Float arithmetic rounds, and the model assumes nothing about the rounding: the two
  float operations of the source are arguments of the functions that use them.
  \<open>float_add t d\<close> is the value of \<^verbatim>\<open>t + d\<close> for a float \<open>t\<close> and an int \<open>d\<close>: Python converts
  the int to a float, raising \<^verbatim>\<open>OverflowError\<close> when it is too large, and rounds the sum.
  \<open>float_sub a b\<close> is the value of \<^verbatim>\<open>a - b\<close> for two floats.
\<close>

type_synonym time = real

datatype error =
  KeyError | OverflowError | TypeError | CacheBackendError | CacheSerializationError

text \<open>
  Where the exact sum of the operands is itself a float, the float sum is that exact sum.
  \<open>exact_float_add\<close> is the float sum on such operands, with the \<^verbatim>\<open>OverflowError\<close> of
  the conversion of an int that rounds to \<open>2 ^ 1024\<close> or beyond; the evaluations on
  concrete stores use it on such operands only (integers and halves of small magnitude).
\<close>

definition exact_float_add :: "time \<Rightarrow> int \<Rightarrow> error + time" where
  "exact_float_add t d =
     (if \<bar>d\<bar> \<ge> 2 ^ 1024 - 2 ^ 970 then Inl OverflowError else Inr (t + real_of_int d))"

text \<open>\<^verbatim>\<open>int(x)\<close> on a float truncates towards zero.\<close>

definition py_int :: "real \<Rightarrow> int" where
  "py_int x = (if 0 \<le> x then \<lfloor>x\<rfloor> else \<lceil>x\<rceil>)"

text \<open>\<^verbatim>\<open>xs[i:j]\<close>: negative indices count from the end, both ends are clamped.\<close>

definition py_slice :: "'a list \<Rightarrow> int \<Rightarrow> int \<Rightarrow> 'a list" where
  "py_slice xs i j =
     (let n = int (length xs);
          lo = (if i < 0 then max 0 (n + i) else min i n);
          hi = (if j < 0 then max 0 (n + j) else min j n)
      in take (nat (hi - lo)) (drop (nat lo) xs))"

record 'k KeysPage =
  keys :: "'k list"
  cursor :: int
  has_more :: bool
  total_scanned :: int

text \<open>
  \<^verbatim>\<open>expires_at is not None and time.time() > expires_at\<close>: the expiry test of
  \<^verbatim>\<open>get\<close>, \<^verbatim>\<open>get_many\<close> and \<^verbatim>\<open>_cleanup_expired\<close>.
\<close>

definition is_expired :: "time option \<Rightarrow> time \<Rightarrow> bool" where
  "is_expired expires_at now = (case expires_at of None \<Rightarrow> False | Some t \<Rightarrow> now > t)"

text \<open>\<^verbatim>\<open>None if ttl is None else time.time() + ttl\<close>, a float sum that may raise.\<close>

definition compute_expires_at ::
  "(time \<Rightarrow> int \<Rightarrow> error + time) \<Rightarrow> int option \<Rightarrow> time \<Rightarrow> error + time option" where
  "compute_expires_at float_add ttl now =
     (case ttl of
        None \<Rightarrow> Inr None
      | Some d \<Rightarrow> (case float_add now d of Inl e \<Rightarrow> Inl e | Inr t \<Rightarrow> Inr (Some t)))"

section \<open>The ordered dictionary of the memory backend\<close>

text \<open>
  \<^verbatim>\<open>OrderedDict[key, (value, expires_at)]\<close> is an association list in iteration order:
  the head is the least recently used entry, the last element the most recently used.
\<close>

type_synonym ('k, 'v) ordered_dict = "('k \<times> ('v option \<times> time option)) list"

definition od_contains :: "('k, 'v) ordered_dict \<Rightarrow> 'k \<Rightarrow> bool" where
  "od_contains d k = (k \<in> set (map fst d))"

text \<open>\<^verbatim>\<open>del d[key]\<close>\<close>

definition od_del :: "'k \<Rightarrow> ('k, 'v) ordered_dict \<Rightarrow> ('k, 'v) ordered_dict" where
  "od_del k d = filter (\<lambda>p. fst p \<noteq> k) d"

text \<open>\<^verbatim>\<open>d.move_to_end(key)\<close>; the source calls it on stored keys only.\<close>

definition od_move_to_end :: "'k \<Rightarrow> ('k, 'v) ordered_dict \<Rightarrow> ('k, 'v) ordered_dict" where
  "od_move_to_end k d = filter (\<lambda>p. fst p \<noteq> k) d @ filter (\<lambda>p. fst p = k) d"

text \<open>\<^verbatim>\<open>d[key] = item\<close>: a stored key keeps its position, a new key goes to the end.\<close>

definition od_setitem ::
  "'k \<Rightarrow> ('v option \<times> time option) \<Rightarrow> ('k, 'v) ordered_dict \<Rightarrow> ('k, 'v) ordered_dict" where
  "od_setitem k item d =
     (if od_contains d k then map (\<lambda>p. if fst p = k then (k, item) else p) d
      else d @ [(k, item)])"

text \<open>\<^verbatim>\<open>d.popitem(last=False)\<close> raises \<^verbatim>\<open>KeyError\<close> on an empty dictionary.\<close>

definition od_popitem_first :: "('k, 'v) ordered_dict \<Rightarrow> error + ('k, 'v) ordered_dict" where
  "od_popitem_first d = (case d of [] \<Rightarrow> Inl KeyError | _ # rest \<Rightarrow> Inr rest)"

section \<open>MemoryBackend\<close>

text \<open>
  Both engines hold a capacity, a sweep interval and a background sweeper thread. The
  thread's stop event \<^verbatim>\<open>_stop_cleanup\<close> is the flag \<open>stop_cleanup\<close>, and
  \<open>thread_joins\<close> logs the timeout of every \<^verbatim>\<open>join\<close> made on the thread.
\<close>

record backend_fields =
  max_size :: int
  cleanup_interval :: int
  stop_cleanup :: bool
  thread_joins :: "real list"

record ('k, 'v) MemoryBackend = backend_fields +
  cache :: "('k, 'v) ordered_dict"

definition MemoryBackend_init :: "int \<Rightarrow> int \<Rightarrow> ('k, 'v) MemoryBackend" where
  "MemoryBackend_init max_size0 cleanup_interval0 =
     \<lparr>max_size = max_size0, cleanup_interval = cleanup_interval0,
      stop_cleanup = False, thread_joins = [], cache = []\<rparr>"

definition MemoryBackend_get ::
  "('k, 'v) MemoryBackend \<Rightarrow> 'k \<Rightarrow> time \<Rightarrow> 'v option \<times> ('k, 'v) MemoryBackend" where
  "MemoryBackend_get s key now =
     (case map_of (cache s) key of
        None \<Rightarrow> (None, s)
      | Some (value, expires_at) \<Rightarrow>
          if is_expired expires_at now then (None, s\<lparr>cache := od_del key (cache s)\<rparr>)
          else (value, s\<lparr>cache := od_move_to_end key (cache s)\<rparr>))"

definition MemoryBackend_set ::
  "(time \<Rightarrow> int \<Rightarrow> error + time) \<Rightarrow> ('k, 'v) MemoryBackend \<Rightarrow> 'k \<Rightarrow> 'v option \<Rightarrow> int option
     \<Rightarrow> bool \<Rightarrow> time \<Rightarrow> error + (bool \<times> ('k, 'v) MemoryBackend)" where
  "MemoryBackend_set float_add s key value ttl nx now =
     (if max_size s = 0 then Inr (False, s)
      else if nx \<and> od_contains (cache s) key
              \<and> (case map_of (cache s) key of
                    None \<Rightarrow> False
                  | Some (_, expires_at) \<Rightarrow>
                      (case expires_at of None \<Rightarrow> True | Some t \<Rightarrow> now \<le> t))
      then Inr (False, s)
      else
        (case compute_expires_at float_add ttl now of
           Inl e \<Rightarrow> Inl e
         | Inr expires_at \<Rightarrow>
             if od_contains (cache s) key
             then Inr (True, s\<lparr>cache := od_setitem key (value, expires_at)
                                          (od_move_to_end key (cache s))\<rparr>)
             else if int (length (cache s)) \<ge> max_size s
             then (case od_popitem_first (cache s) of
                     Inl e \<Rightarrow> Inl e
                   | Inr rest \<Rightarrow>
                       Inr (True, s\<lparr>cache := od_setitem key (value, expires_at) rest\<rparr>))
             else Inr (True, s\<lparr>cache := od_setitem key (value, expires_at) (cache s)\<rparr>)))"

definition MemoryBackend_delete ::
  "('k, 'v) MemoryBackend \<Rightarrow> 'k \<Rightarrow> bool \<times> ('k, 'v) MemoryBackend" where
  "MemoryBackend_delete s key =
     (if od_contains (cache s) key then (True, s\<lparr>cache := od_del key (cache s)\<rparr>)
      else (False, s))"

text \<open>\<^verbatim>\<open>return self.get(key) is not None\<close>\<close>

definition MemoryBackend_exists ::
  "('k, 'v) MemoryBackend \<Rightarrow> 'k \<Rightarrow> time \<Rightarrow> bool \<times> ('k, 'v) MemoryBackend" where
  "MemoryBackend_exists s key now =
     (case MemoryBackend_get s key now of (value, s') \<Rightarrow> (value \<noteq> None, s'))"

text \<open>
  The loop of \<^verbatim>\<open>get_many\<close>: \<open>result\<close> is the dictionary built so far, a map from keys to
  the (possibly \<^verbatim>\<open>None\<close>) values.
\<close>

fun MemoryBackend_get_many_loop ::
  "'k list \<Rightarrow> time \<Rightarrow> ('k \<rightharpoonup> 'v option) \<Rightarrow> ('k, 'v) MemoryBackend
     \<Rightarrow> ('k \<rightharpoonup> 'v option) \<times> ('k, 'v) MemoryBackend" where
  "MemoryBackend_get_many_loop [] now result s = (result, s)"
| "MemoryBackend_get_many_loop (key # rest_keys) now result s =
     (case map_of (cache s) key of
        None \<Rightarrow> MemoryBackend_get_many_loop rest_keys now result s
      | Some (value, expires_at) \<Rightarrow>
          if is_expired expires_at now
          then MemoryBackend_get_many_loop rest_keys now result (s\<lparr>cache := od_del key (cache s)\<rparr>)
          else MemoryBackend_get_many_loop rest_keys now (result(key \<mapsto> value))
                 (s\<lparr>cache := od_move_to_end key (cache s)\<rparr>))"

definition MemoryBackend_get_many ::
  "('k, 'v) MemoryBackend \<Rightarrow> 'k list \<Rightarrow> time
     \<Rightarrow> ('k \<rightharpoonup> 'v option) \<times> ('k, 'v) MemoryBackend" where
  "MemoryBackend_get_many s key_list now = MemoryBackend_get_many_loop key_list now Map.empty s"

text \<open>
  The loop of \<^verbatim>\<open>set_many\<close> over \<^verbatim>\<open>mapping.items()\<close>, the items in the dictionary's order.
\<close>

fun MemoryBackend_set_many_loop ::
  "('k \<times> 'v option) list \<Rightarrow> time option \<Rightarrow> ('k, 'v) MemoryBackend
     \<Rightarrow> error + ('k, 'v) MemoryBackend" where
  "MemoryBackend_set_many_loop [] expires_at s = Inr s"
| "MemoryBackend_set_many_loop ((key, value) # items) expires_at s =
     (if int (length (cache s)) \<ge> max_size s \<and> \<not> od_contains (cache s) key
      then (case od_popitem_first (cache s) of
              Inl e \<Rightarrow> Inl e
            | Inr rest \<Rightarrow>
                MemoryBackend_set_many_loop items expires_at
                  (s\<lparr>cache := od_move_to_end key (od_setitem key (value, expires_at) rest)\<rparr>))
      else MemoryBackend_set_many_loop items expires_at
             (s\<lparr>cache := od_move_to_end key (od_setitem key (value, expires_at) (cache s))\<rparr>))"

definition MemoryBackend_set_many ::
  "(time \<Rightarrow> int \<Rightarrow> error + time) \<Rightarrow> ('k, 'v) MemoryBackend \<Rightarrow> ('k \<times> 'v option) list
     \<Rightarrow> int option \<Rightarrow> time \<Rightarrow> error + ('k, 'v) MemoryBackend" where
  "MemoryBackend_set_many float_add s mapping ttl now =
     (if max_size s = 0 then Inr s
      else (case compute_expires_at float_add ttl now of
              Inl e \<Rightarrow> Inl e
            | Inr expires_at \<Rightarrow> MemoryBackend_set_many_loop mapping expires_at s))"

text \<open>
  \<^verbatim>\<open>keys\<close>: \<open>fnmatch\<close> stands for \<^verbatim>\<open>fnmatch.fnmatch\<close> of the standard library. Every
  stored key is listed; no expiry test is made.
\<close>

definition MemoryBackend_keys ::
  "('k \<Rightarrow> string \<Rightarrow> bool) \<Rightarrow> ('k, 'v) MemoryBackend \<Rightarrow> string \<Rightarrow> int \<Rightarrow> int \<Rightarrow> int option
     \<Rightarrow> 'k KeysPage" where
  "MemoryBackend_keys fnmatch s pattern cursor0 count max_keys =
     (let all_keys = map fst (cache s);
          matched_keys = (if pattern \<noteq> ''*'' then filter (\<lambda>k. fnmatch k pattern) all_keys
                          else all_keys);
          total = int (length matched_keys);
          start_idx = cursor0;
          end_idx = (case max_keys of
                       None \<Rightarrow> start_idx + count
                     | Some m \<Rightarrow> min (start_idx + count) (start_idx + m));
          page_keys = py_slice matched_keys start_idx end_idx;
          next_cursor = (if end_idx < total then end_idx else 0)
      in \<lparr>keys = page_keys, cursor = next_cursor, has_more = (next_cursor > 0),
          total_scanned = int (length page_keys)\<rparr>)"

definition MemoryBackend_ttl ::
  "(time \<Rightarrow> time \<Rightarrow> time) \<Rightarrow> ('k, 'v) MemoryBackend \<Rightarrow> 'k \<Rightarrow> time \<Rightarrow> int" where
  "MemoryBackend_ttl float_sub s key now =
     (case map_of (cache s) key of
        None \<Rightarrow> - 2
      | Some (_, expires_at) \<Rightarrow>
          (case expires_at of
             None \<Rightarrow> - 1
           | Some t \<Rightarrow> (let remaining = py_int (float_sub t now)
                        in if remaining > 0 then remaining else - 2)))"

text \<open>
  \<^verbatim>\<open>close\<close>: the body of the \<^verbatim>\<open>if\<close> is \<^verbatim>\<open>pass\<close>; \<open>is_alive\<close> is the answer of
  \<^verbatim>\<open>self._cleanup_thread.is_alive()\<close>.
\<close>

definition MemoryBackend_close :: "bool \<Rightarrow> ('k, 'v) MemoryBackend \<Rightarrow> ('k, 'v) MemoryBackend" where
  "MemoryBackend_close is_alive s = (if is_alive then s else s)"

text \<open>\<^verbatim>\<open>_cleanup_expired\<close>, the body of the background sweep.\<close>

definition MemoryBackend_cleanup_expired ::
  "('k, 'v) MemoryBackend \<Rightarrow> time \<Rightarrow> ('k, 'v) MemoryBackend" where
  "MemoryBackend_cleanup_expired s now =
     s\<lparr>cache := filter (\<lambda>p. \<not> is_expired (snd (snd p)) now) (cache s)\<rparr>"

section \<open>Sequences of calls on a memory backend\<close>

text \<open>
  A caller's program: a list of calls, each with the clock reading at which it is made.
  \<open>MemoryBackend_run\<close> makes the calls in order and collects what they return; an
  exception ends the run.
\<close>

datatype ('k, 'v) mem_call =
    CallSet 'k "'v option" "int option" bool time
  | CallGet 'k time
  | CallDelete 'k
  | CallCleanup time

datatype 'v mem_result = Returned_bool bool | Returned_value "'v option" | Returned_nothing

fun MemoryBackend_call ::
  "(time \<Rightarrow> int \<Rightarrow> error + time) \<Rightarrow> ('k, 'v) MemoryBackend \<Rightarrow> ('k, 'v) mem_call
     \<Rightarrow> error + ('v mem_result \<times> ('k, 'v) MemoryBackend)" where
  "MemoryBackend_call float_add s (CallSet key value ttl nx now) =
     (case MemoryBackend_set float_add s key value ttl nx now of
        Inl e \<Rightarrow> Inl e
      | Inr (ok, s') \<Rightarrow> Inr (Returned_bool ok, s'))"
| "MemoryBackend_call float_add s (CallGet key now) =
     (case MemoryBackend_get s key now of (value, s') \<Rightarrow> Inr (Returned_value value, s'))"
| "MemoryBackend_call float_add s (CallDelete key) =
     (case MemoryBackend_delete s key of (ok, s') \<Rightarrow> Inr (Returned_bool ok, s'))"
| "MemoryBackend_call float_add s (CallCleanup now) =
     Inr (Returned_nothing, MemoryBackend_cleanup_expired s now)"

fun MemoryBackend_run ::
  "(time \<Rightarrow> int \<Rightarrow> error + time) \<Rightarrow> ('k, 'v) MemoryBackend \<Rightarrow> ('k, 'v) mem_call list
     \<Rightarrow> error + ('v mem_result list \<times> ('k, 'v) MemoryBackend)" where
  "MemoryBackend_run float_add s [] = Inr ([], s)"
| "MemoryBackend_run float_add s (c # cs) =
     (case MemoryBackend_call float_add s c of
        Inl e \<Rightarrow> Inl e
      | Inr (r, s') \<Rightarrow>
          (case MemoryBackend_run float_add s' cs of
             Inl e \<Rightarrow> Inl e
           | Inr (rs, s'') \<Rightarrow> Inr (r # rs, s'')))"

definition MemoryBackend_returns ::
  "(time \<Rightarrow> int \<Rightarrow> error + time) \<Rightarrow> ('k, 'v) MemoryBackend \<Rightarrow> ('k, 'v) mem_call list
     \<Rightarrow> error + 'v mem_result list" where
  "MemoryBackend_returns float_add s cs =
     (case MemoryBackend_run float_add s cs of Inl e \<Rightarrow> Inl e | Inr (rs, _) \<Rightarrow> Inr rs)"

text \<open>
  A call touches the entry of \<open>k\<close> when it is a \<^verbatim>\<open>set\<close> of \<open>k\<close> that writes, or a
  \<^verbatim>\<open>get\<close> of \<open>k\<close> that finds a stored, unexpired entry. \<open>touch_stamps\<close> follows a run and
  records, for every key, the index of the last call that touched it.
\<close>

fun touches ::
  "(time \<Rightarrow> int \<Rightarrow> error + time) \<Rightarrow> ('k, 'v) MemoryBackend \<Rightarrow> ('k, 'v) mem_call \<Rightarrow> 'k \<Rightarrow> bool" where
  "touches float_add s (CallSet key value ttl nx now) k =
     (k = key \<and> (case MemoryBackend_set float_add s key value ttl nx now of
                    Inr (ok, _) \<Rightarrow> ok | Inl _ \<Rightarrow> False))"
| "touches float_add s (CallGet key now) k =
     (k = key \<and> (case map_of (cache s) key of
                    None \<Rightarrow> False
                  | Some (_, expires_at) \<Rightarrow> \<not> is_expired expires_at now))"
| "touches float_add s (CallDelete key) k = False"
| "touches float_add s (CallCleanup now) k = False"

fun touch_stamps ::
  "(time \<Rightarrow> int \<Rightarrow> error + time) \<Rightarrow> ('k, 'v) MemoryBackend \<Rightarrow> nat \<Rightarrow> ('k \<Rightarrow> nat)
     \<Rightarrow> ('k, 'v) mem_call list \<Rightarrow> error + (('k, 'v) MemoryBackend \<times> nat \<times> ('k \<Rightarrow> nat))" where
  "touch_stamps float_add s n stamp [] = Inr (s, n, stamp)"
| "touch_stamps float_add s n stamp (c # cs) =
     (case MemoryBackend_call float_add s c of
        Inl e \<Rightarrow> Inl e
      | Inr (_, s') \<Rightarrow>
          touch_stamps float_add s' (Suc n)
            (\<lambda>k. if touches float_add s c k then n else stamp k) cs)"

section \<open>Cache keys and the key column\<close>

text \<open>
  \<^verbatim>\<open>CacheKey = str | int | bytes\<close>. A \<^verbatim>\<open>bytes\<close> object is the list of its bytes; a \<^verbatim>\<open>str\<close>
  is the list of the bytes of its UTF-8 encoding, the form in which SQLite stores text.
\<close>

datatype cache_key = KStr string | KInt int | KBytes string

text \<open>\<^verbatim>\<open>str(key)\<close>: a string itself, an int in decimal, a bytes object as its \<^verbatim>\<open>repr\<close>.\<close>

fun str_nat :: "nat \<Rightarrow> string" where
  "str_nat n =
     (if n < 10 then [char_of (48 + n)]
      else str_nat (n div 10) @ [char_of (48 + n mod 10)])"

definition str_int :: "int \<Rightarrow> string" where
  "str_int i = (if i < 0 then CHR ''-'' # str_nat (nat (- i)) else str_nat (nat i))"

definition hex_digit :: "nat \<Rightarrow> char" where
  "hex_digit d = (if d < 10 then char_of (48 + d) else char_of (87 + d))"

definition repr_quote :: "string \<Rightarrow> char" where
  "repr_quote b = (if CHR 0x27 \<in> set b \<and> CHR 0x22 \<notin> set b then CHR 0x22 else CHR 0x27)"

definition repr_byte :: "char \<Rightarrow> char \<Rightarrow> string" where
  "repr_byte quote c =
     (if c = quote \<or> c = CHR 0x5C then [CHR 0x5C, c]
      else if c = CHR 0x09 then [CHR 0x5C, CHR ''t'']
      else if c = CHR 0x0A then [CHR 0x5C, CHR ''n'']
      else if c = CHR 0x0D then [CHR 0x5C, CHR ''r'']
      else if (of_char c :: nat) < 32 \<or> (of_char c :: nat) \<ge> 127
      then [CHR 0x5C, CHR ''x'', hex_digit (of_char c div 16), hex_digit (of_char c mod 16)]
      else [c])"

definition repr_bytes :: "string \<Rightarrow> string" where
  "repr_bytes b =
     (let quote = repr_quote b
      in CHR ''b'' # quote # concat (map (repr_byte quote) b) @ [quote])"

definition py_str :: "cache_key \<Rightarrow> string" where
  "py_str key = (case key of KStr s \<Rightarrow> s | KInt i \<Rightarrow> str_int i | KBytes b \<Rightarrow> repr_bytes b)"

text \<open>
  The column \<^verbatim>\<open>key TEXT PRIMARY KEY\<close> holds text or a blob. \<open>sql_bind\<close> is the value a
  raw key becomes when it is bound as a parameter and inserted into, or compared with,
  that column: a \<^verbatim>\<open>str\<close> is text; an \<^verbatim>\<open>int\<close> is bound as an integer, which the column's
  text affinity turns into its decimal text, and the driver raises \<^verbatim>\<open>OverflowError\<close> for an
  int outside 64 bits; \<^verbatim>\<open>bytes\<close> is a blob, which the affinity leaves a blob.
  \<open>sql_column_value\<close> is the Python value a stored key is read back as, and \<open>sql_order\<close>
  places the stored keys in the order of \<^verbatim>\<open>ORDER BY key\<close>: text before blobs, each by its
  bytes.
\<close>

datatype sql_value = SqlText string | SqlBlob string

definition sql_bind :: "cache_key \<Rightarrow> error + sql_value" where
  "sql_bind key =
     (case key of
        KStr s \<Rightarrow> Inr (SqlText s)
      | KInt i \<Rightarrow> if - (2 ^ 63) \<le> i \<and> i < 2 ^ 63 then Inr (SqlText (str_int i))
                  else Inl OverflowError
      | KBytes b \<Rightarrow> Inr (SqlBlob b))"

definition sql_column_value :: "sql_value \<Rightarrow> cache_key" where
  "sql_column_value v = (case v of SqlText s \<Rightarrow> KStr s | SqlBlob b \<Rightarrow> KBytes b)"

definition sql_order :: "sql_value \<Rightarrow> nat \<times> string" where
  "sql_order v = (case v of SqlText s \<Rightarrow> (0, s) | SqlBlob b \<Rightarrow> (1, b))"

section \<open>FileBackend\<close>

text \<open>
  The table \<^verbatim>\<open>cache_entries(key, value, expires_at, last_access, created_at)\<close> is the list
  of its rows in rowid order. \<^verbatim>\<open>key\<close> is the primary key: at most one row per key.
  \<^verbatim>\<open>INSERT OR REPLACE\<close> deletes the row of the key and appends the new row (a fresh,
  largest rowid). \<^verbatim>\<open>ORDER BY last_access ASC\<close> is a stable sort of the rows, so rows with
  equal \<^verbatim>\<open>last_access\<close> stay in rowid order, the order of the index on
  \<^verbatim>\<open>last_access\<close>. Disk and driver failures other than the one of \<open>sql_bind\<close> are not
  modelled; the serializer is a pair of functions that may fail. The hot-reload
  bookkeeping touches no row and is left out.

  \<^verbatim>\<open>set\<close> binds the raw key, in its \<^verbatim>\<open>nx\<close> check and in its insert; \<^verbatim>\<open>get\<close> and \<^verbatim>\<open>delete\<close>
  bind \<^verbatim>\<open>str(key)\<close>, which is always text.
\<close>

record ('k, 'b) cache_entry =
  row_key :: 'k
  row_value :: 'b
  row_expires_at :: "time option"
  row_last_access :: time
  row_created_at :: time

record 'b FileBackend = backend_fields +
  cache_entries :: "(sql_value, 'b) cache_entry list"

definition FileBackend_init :: "int \<Rightarrow> int \<Rightarrow> 'b FileBackend" where
  "FileBackend_init max_size0 cleanup_interval0 =
     \<lparr>max_size = max_size0, cleanup_interval = cleanup_interval0,
      stop_cleanup = False, thread_joins = [], cache_entries = []\<rparr>"

text \<open>\<^verbatim>\<open>expires_at IS NULL OR expires_at > ?\<close>, the filter of the \<^verbatim>\<open>nx\<close> check and of \<^verbatim>\<open>keys\<close>.\<close>

definition sql_unexpired :: "time option \<Rightarrow> time \<Rightarrow> bool" where
  "sql_unexpired expires_at now = (case expires_at of None \<Rightarrow> True | Some t \<Rightarrow> t > now)"

definition FileBackend_get ::
  "('b \<Rightarrow> error + 'v option) \<Rightarrow> 'b FileBackend \<Rightarrow> cache_key \<Rightarrow> time
     \<Rightarrow> error + ('v option \<times> 'b FileBackend)" where
  "FileBackend_get deserialize s key now =
     (case find (\<lambda>r. row_key r = SqlText (py_str key)) (cache_entries s) of
        None \<Rightarrow> Inr (None, s)
      | Some row \<Rightarrow>
          if is_expired (row_expires_at row) now
          then Inr (None, s\<lparr>cache_entries :=
                               filter (\<lambda>r. row_key r \<noteq> SqlText (py_str key)) (cache_entries s)\<rparr>)
          else
            (case deserialize (row_value row) of
               Inl e \<Rightarrow> Inl e
             | Inr value \<Rightarrow>
                 Inr (value,
                      s\<lparr>cache_entries :=
                          map (\<lambda>r. if row_key r = SqlText (py_str key)
                                   then r\<lparr>row_last_access := now\<rparr> else r)
                            (cache_entries s)\<rparr>)))"



definition FileBackend_delete :: "'b FileBackend \<Rightarrow> cache_key \<Rightarrow> bool \<times> 'b FileBackend" where
  "FileBackend_delete s key =
     (length (filter (\<lambda>r. row_key r = SqlText (py_str key)) (cache_entries s)) > 0,
      s\<lparr>cache_entries := filter (\<lambda>r. row_key r \<noteq> SqlText (py_str key)) (cache_entries s)\<rparr>)"

definition FileBackend_exists ::
  "('b \<Rightarrow> error + 'v option) \<Rightarrow> 'b FileBackend \<Rightarrow> cache_key \<Rightarrow> time
     \<Rightarrow> error + (bool \<times> 'b FileBackend)" where
  "FileBackend_exists deserialize s key now =
     (case FileBackend_get deserialize s key now of
        Inl e \<Rightarrow> Inl e
      | Inr (value, s') \<Rightarrow> Inr (value \<noteq> None, s'))"

text \<open>
  \<^verbatim>\<open>keys\<close>: the unexpired keys \<^verbatim>\<open>ORDER BY key\<close>, read back as Python values, then the
  pattern and the page. \<open>fnmatch\<close> stands for \<^verbatim>\<open>fnmatch.fnmatch\<close> on two strings; on a
  \<^verbatim>\<open>bytes\<close> name with a \<^verbatim>\<open>str\<close> pattern the library raises \<^verbatim>\<open>TypeError\<close>.
\<close>

fun fnmatch_keys ::
  "(string \<Rightarrow> string \<Rightarrow> bool) \<Rightarrow> string \<Rightarrow> cache_key list \<Rightarrow> error + cache_key list" where
  "fnmatch_keys fnmatch pattern [] = Inr []"
| "fnmatch_keys fnmatch pattern (k # ks) =
     (case k of
        KStr name_str \<Rightarrow>
          (case fnmatch_keys fnmatch pattern ks of
             Inl e \<Rightarrow> Inl e
           | Inr rest \<Rightarrow> Inr (if fnmatch name_str pattern then k # rest else rest))
      | _ \<Rightarrow> Inl TypeError)"

definition FileBackend_keys ::
  "(string \<Rightarrow> string \<Rightarrow> bool) \<Rightarrow> 'b FileBackend \<Rightarrow> string \<Rightarrow> int \<Rightarrow> int
     \<Rightarrow> int option \<Rightarrow> time \<Rightarrow> error + cache_key KeysPage" where
  "FileBackend_keys fnmatch s pattern cursor0 count max_keys now =
     (let all_keys = map (\<lambda>r. sql_column_value (row_key r))
                       (sort_key (\<lambda>r. sql_order (row_key r))
                          (filter (\<lambda>r. sql_unexpired (row_expires_at r) now) (cache_entries s)))
      in case (if pattern \<noteq> ''*'' then fnmatch_keys fnmatch pattern all_keys
               else Inr all_keys) of
           Inl e \<Rightarrow> Inl e
         | Inr matched_keys \<Rightarrow>
             (let total = int (length matched_keys);
                  start_idx = cursor0;
                  end_idx = (case max_keys of
                               None \<Rightarrow> start_idx + count
                             | Some m \<Rightarrow> min (start_idx + count) (start_idx + m));
                  page_keys = py_slice matched_keys start_idx end_idx;
                  next_cursor = (if end_idx < total then end_idx else 0)
              in Inr \<lparr>keys = page_keys, cursor = next_cursor, has_more = (next_cursor > 0),
                      total_scanned = int (length page_keys)\<rparr>))"

text \<open>
  \<^verbatim>\<open>close\<close>: \<^verbatim>\<open>self._stop_cleanup.set()\<close>, then \<^verbatim>\<open>join(timeout=1.0)\<close> if the thread is alive.
\<close>

definition FileBackend_close :: "bool \<Rightarrow> 'b FileBackend \<Rightarrow> 'b FileBackend" where
  "FileBackend_close is_alive s =
     (let s1 = s\<lparr>stop_cleanup := True\<rparr>
      in if is_alive then s1\<lparr>thread_joins := thread_joins s1 @ [1]\<rparr> else s1)"

section \<open>BaseBackend: the default batch operations\<close>

text \<open>
  The defaults loop over the single-key operations of the engine, which are arguments
  here; \<open>result\<close> is the dictionary built so far.
\<close>

fun BaseBackend_get_many_loop ::
  "('s \<Rightarrow> 'k \<Rightarrow> error + ('v option \<times> 's)) \<Rightarrow> 'k list \<Rightarrow> ('k \<rightharpoonup> 'v option) \<Rightarrow> 's
     \<Rightarrow> error + (('k \<rightharpoonup> 'v option) \<times> 's)" where
  "BaseBackend_get_many_loop get [] result s = Inr (result, s)"
| "BaseBackend_get_many_loop get (key # rest_keys) result s =
     (case get s key of
        Inl e \<Rightarrow> Inl e
      | Inr (value, s') \<Rightarrow>
          BaseBackend_get_many_loop get rest_keys
            (if value \<noteq> None then result(key \<mapsto> value) else result) s')"

definition BaseBackend_get_many ::
  "('s \<Rightarrow> 'k \<Rightarrow> error + ('v option \<times> 's)) \<Rightarrow> 's \<Rightarrow> 'k list
     \<Rightarrow> error + (('k \<rightharpoonup> 'v option) \<times> 's)" where
  "BaseBackend_get_many get s key_list = BaseBackend_get_many_loop get key_list Map.empty s"

fun BaseBackend_set_many ::
  "('s \<Rightarrow> 'k \<Rightarrow> 'v option \<Rightarrow> int option \<Rightarrow> error + (bool \<times> 's)) \<Rightarrow> 's
     \<Rightarrow> ('k \<times> 'v option) list \<Rightarrow> int option \<Rightarrow> error + 's" where
  "BaseBackend_set_many set_one s [] ttl = Inr s"
| "BaseBackend_set_many set_one s ((key, value) # items) ttl =
     (case set_one s key value ttl of
        Inl e \<Rightarrow> Inl e
      | Inr (_, s') \<Rightarrow> BaseBackend_set_many set_one s' items ttl)"

fun BaseBackend_delete_many_loop ::
  "('s \<Rightarrow> 'k \<Rightarrow> error + (bool \<times> 's)) \<Rightarrow> 'k list \<Rightarrow> int \<Rightarrow> 's \<Rightarrow> error + (int \<times> 's)" where
  "BaseBackend_delete_many_loop delete [] count s = Inr (count, s)"
| "BaseBackend_delete_many_loop delete (key # rest_keys) count s =
     (case delete s key of
        Inl e \<Rightarrow> Inl e
      | Inr (deleted, s') \<Rightarrow>
          BaseBackend_delete_many_loop delete rest_keys (if deleted then count + 1 else count) s')"

definition BaseBackend_delete_many ::
  "('s \<Rightarrow> 'k \<Rightarrow> error + (bool \<times> 's)) \<Rightarrow> 's \<Rightarrow> 'k list \<Rightarrow> error + (int \<times> 's)" where
  "BaseBackend_delete_many delete s key_list = BaseBackend_delete_many_loop delete key_list 0 s"

text \<open>\<^verbatim>\<open>return -2 if not self.exists(key) else -1\<close>\<close>

definition BaseBackend_ttl ::
  "('s \<Rightarrow> 'k \<Rightarrow> error + (bool \<times> 's)) \<Rightarrow> 's \<Rightarrow> 'k \<Rightarrow> error + (int \<times> 's)" where
  "BaseBackend_ttl exists_one s key =
     (case exists_one s key of
        Inl e \<Rightarrow> Inl e
      | Inr (found, s') \<Rightarrow> Inr (if \<not> found then - 2 else - 1, s'))"

text \<open>
  The memory backend keeps the default \<^verbatim>\<open>delete_many\<close>; its single-key operations at the
  clock reading \<open>now\<close>, in the shape the defaults take:
\<close>

definition MemoryBackend_get_op ::
  "time \<Rightarrow> ('k, 'v) MemoryBackend \<Rightarrow> 'k \<Rightarrow> error + ('v option \<times> ('k, 'v) MemoryBackend)" where
  "MemoryBackend_get_op now s key = Inr (MemoryBackend_get s key now)"

definition MemoryBackend_set_op ::
  "(time \<Rightarrow> int \<Rightarrow> error + time) \<Rightarrow> time \<Rightarrow> ('k, 'v) MemoryBackend \<Rightarrow> 'k \<Rightarrow> 'v option
     \<Rightarrow> int option \<Rightarrow> error + (bool \<times> ('k, 'v) MemoryBackend)" where
  "MemoryBackend_set_op float_add now s key value ttl =
     MemoryBackend_set float_add s key value ttl False now"

definition MemoryBackend_delete_op ::
  "('k, 'v) MemoryBackend \<Rightarrow> 'k \<Rightarrow> error + (bool \<times> ('k, 'v) MemoryBackend)" where
  "MemoryBackend_delete_op s key = Inr (MemoryBackend_delete s key)"

definition MemoryBackend_delete_many ::
  "('k, 'v) MemoryBackend \<Rightarrow> 'k list \<Rightarrow> error + (int \<times> ('k, 'v) MemoryBackend)" where
  "MemoryBackend_delete_many s key_list = BaseBackend_delete_many MemoryBackend_delete_op s key_list"

section \<open>DistributedLock\<close>

text \<open>
  The lock talks to a \<^verbatim>\<open>CacheManager\<close>, whose \<^verbatim>\<open>get\<close>, \<^verbatim>\<open>set\<close> and \<^verbatim>\<open>delete\<close> hand the
  call to the backend unchanged. The three backend operations are arguments of the lock's
  methods; \<open>identifier\<close> is the string of \<^verbatim>\<open>uuid.uuid4()\<close>, an argument of the
  constructor here.
\<close>

record DistributedLock =
  name :: string
  timeout :: int
  blocking :: bool
  blocking_timeout :: "real option"
  "identifier" :: string
  locked :: bool

definition DistributedLock_init ::
  "string \<Rightarrow> int \<Rightarrow> bool \<Rightarrow> real option \<Rightarrow> string \<Rightarrow> DistributedLock" where
  "DistributedLock_init name0 timeout0 blocking0 blocking_timeout0 uuid4 =
     \<lparr>name = ''lock:'' @ name0, timeout = timeout0, blocking = blocking0,
      blocking_timeout = blocking_timeout0, identifier = uuid4, locked = False\<rparr>"

text \<open>
  One round of the loop of \<^verbatim>\<open>acquire\<close> is two backend calls:
  \<^verbatim>\<open>existing = self.manager.get(self.name)\<close>, and, when that is \<^verbatim>\<open>None\<close>,
  \<^verbatim>\<open>self.manager.set(self.name, self.identifier, ttl=self.timeout)\<close> (so \<^verbatim>\<open>nx\<close> is
  \<^verbatim>\<open>False\<close>), whose result is dropped.
\<close>

definition DistributedLock_acquire_read ::
  "('s \<Rightarrow> string \<Rightarrow> time \<Rightarrow> error + (string option \<times> 's)) \<Rightarrow> DistributedLock \<Rightarrow> 's \<Rightarrow> time
     \<Rightarrow> error + (string option \<times> 's)" where
  "DistributedLock_acquire_read manager_get lk s now = manager_get s (name lk) now"

definition DistributedLock_acquire_write ::
  "('s \<Rightarrow> string \<Rightarrow> string option \<Rightarrow> int option \<Rightarrow> bool \<Rightarrow> time \<Rightarrow> error + (bool \<times> 's))
     \<Rightarrow> DistributedLock \<Rightarrow> 's \<Rightarrow> time \<Rightarrow> error + (bool \<times> DistributedLock \<times> 's)" where
  "DistributedLock_acquire_write manager_set lk s now =
     (case manager_set s (name lk) (Some (identifier lk)) (Some (timeout lk)) False now of
        Inl e \<Rightarrow> Inl e
      | Inr (_, s') \<Rightarrow> Inr (True, lk\<lparr>locked := True\<rparr>, s'))"

datatype round_result = Done bool | Retry

definition DistributedLock_acquire_round ::
  "(time \<Rightarrow> time \<Rightarrow> time)
     \<Rightarrow> ('s \<Rightarrow> string \<Rightarrow> time \<Rightarrow> error + (string option \<times> 's))
     \<Rightarrow> ('s \<Rightarrow> string \<Rightarrow> string option \<Rightarrow> int option \<Rightarrow> bool \<Rightarrow> time \<Rightarrow> error + (bool \<times> 's))
     \<Rightarrow> DistributedLock \<Rightarrow> 's \<Rightarrow> time \<Rightarrow> time
     \<Rightarrow> error + (round_result \<times> DistributedLock \<times> 's)" where
  "DistributedLock_acquire_round float_sub manager_get manager_set lk s start_time now =
     (case DistributedLock_acquire_read manager_get lk s now of
        Inl e \<Rightarrow> Inl e
      | Inr (existing, s1) \<Rightarrow>
          if existing = None
          then (case DistributedLock_acquire_write manager_set lk s1 now of
                  Inl e \<Rightarrow> Inl e
                | Inr (ok, lk', s2) \<Rightarrow> Inr (Done ok, lk', s2))
          else if \<not> blocking lk then Inr (Done False, lk, s1)
          else if (case blocking_timeout lk of
                     None \<Rightarrow> False
                   | Some limit \<Rightarrow> float_sub now start_time \<ge> limit)
          then Inr (Done False, lk, s1)
          else Inr (Retry, lk, s1))"

text \<open>
  \<^verbatim>\<open>while True\<close>: a round that neither acquires nor gives up sleeps 0.01 seconds and
  tries again. With no other caller of the backend the clock is all that changes between
  rounds; the loop need not end, and then the result is \<open>None\<close>.
\<close>

partial_function (option) DistributedLock_acquire ::
  "(time \<Rightarrow> time \<Rightarrow> time)
     \<Rightarrow> ('s \<Rightarrow> string \<Rightarrow> time \<Rightarrow> error + (string option \<times> 's))
     \<Rightarrow> ('s \<Rightarrow> string \<Rightarrow> string option \<Rightarrow> int option \<Rightarrow> bool \<Rightarrow> time \<Rightarrow> error + (bool \<times> 's))
     \<Rightarrow> DistributedLock \<Rightarrow> 's \<Rightarrow> time \<Rightarrow> time
     \<Rightarrow> (error + (bool \<times> DistributedLock \<times> 's)) option" where
  "DistributedLock_acquire float_sub manager_get manager_set lk s start_time now =
     (case DistributedLock_acquire_round float_sub manager_get manager_set lk s start_time now of
        Inl e \<Rightarrow> Some (Inl e)
      | Inr (Done ok, lk', s') \<Rightarrow> Some (Inr (ok, lk', s'))
      | Inr (Retry, lk', s') \<Rightarrow>
          DistributedLock_acquire float_sub manager_get manager_set lk' s' start_time
            (now + 1 / 100))"

definition DistributedLock_release ::
  "('s \<Rightarrow> string \<Rightarrow> time \<Rightarrow> error + (string option \<times> 's))
     \<Rightarrow> ('s \<Rightarrow> string \<Rightarrow> error + (bool \<times> 's))
     \<Rightarrow> DistributedLock \<Rightarrow> 's \<Rightarrow> time \<Rightarrow> error + (DistributedLock \<times> 's)" where
  "DistributedLock_release manager_get manager_delete lk s now =
     (if \<not> locked lk then Inr (lk, s)
      else
        (case manager_get s (name lk) now of
           Inl e \<Rightarrow> Inl e
         | Inr (current_value, s1) \<Rightarrow>
             if current_value = Some (identifier lk)
             then (case manager_delete s1 (name lk) of
                     Inl e \<Rightarrow> Inl e
                   | Inr (_, s2) \<Rightarrow> Inr (lk\<lparr>locked := False\<rparr>, s2))
             else Inr (lk, s1)))"

text \<open>A \<^verbatim>\<open>CacheManager\<close> over a memory backend.\<close>

definition CacheManager_get ::
  "(string, string) MemoryBackend \<Rightarrow> string \<Rightarrow> time
     \<Rightarrow> error + (string option \<times> (string, string) MemoryBackend)" where
  "CacheManager_get s key now = Inr (MemoryBackend_get s key now)"

definition CacheManager_set ::
  "(time \<Rightarrow> int \<Rightarrow> error + time) \<Rightarrow> (string, string) MemoryBackend \<Rightarrow> string \<Rightarrow> string option
     \<Rightarrow> int option \<Rightarrow> bool \<Rightarrow> time \<Rightarrow> error + (bool \<times> (string, string) MemoryBackend)" where
  "CacheManager_set float_add s key value ttl nx now =
     MemoryBackend_set float_add s key value ttl nx now"

definition CacheManager_delete ::
  "(string, string) MemoryBackend \<Rightarrow> string
     \<Rightarrow> error + (bool \<times> (string, string) MemoryBackend)" where
  "CacheManager_delete s key = Inr (MemoryBackend_delete s key)"

section \<open>Invariant of the memory backend's recency order\<close>

text \<open>
  The stamps of the stored keys increase strictly along the dictionary, and all lie below
  the index of the next call.
\<close>

definition lru_inv :: "('k \<Rightarrow> nat) \<Rightarrow> nat \<Rightarrow> ('k, 'v) ordered_dict \<Rightarrow> bool" where
  "lru_inv stamp n d =
     (sorted_wrt (<) (map (\<lambda>p. stamp (fst p)) d) \<and> list_all (\<lambda>p. stamp (fst p) < n) d)"

section \<open>What a read finds\<close>

text \<open>
  The value a \<^verbatim>\<open>get\<close> at time \<open>now\<close> finds under \<open>k\<close>: the stored value of an unexpired
  entry (which may be \<^verbatim>\<open>None\<close>), or nothing.
\<close>

definition stored_live :: "('k, 'v) ordered_dict \<Rightarrow> time \<Rightarrow> 'k \<Rightarrow> 'v option option" where
  "stored_live d now k =
     (case map_of d k of
        None \<Rightarrow> None
      | Some (v, e) \<Rightarrow> if is_expired e now then None else Some v)"

section \<open>Unfolding the memory backend on concrete stores\<close>

lemmas mem_defs = MemoryBackend_returns_def MemoryBackend_init_def MemoryBackend_set_def
      MemoryBackend_get_def MemoryBackend_delete_def
      od_contains_def od_setitem_def od_popitem_first_def od_move_to_end_def od_del_def
      compute_expires_at_def exact_float_add_def is_expired_def Let_def

section \<open>Facts about the ordered dictionary\<close>

lemma od_contains_map_of: "od_contains d k \<longleftrightarrow> map_of d k \<noteq> None"
  by (simp add: od_contains_def map_of_eq_None_iff)

lemma od_setitem_new: "\<not> od_contains d k \<Longrightarrow> od_setitem k item d = d @ [(k, item)]"
  by (simp add: od_setitem_def)

lemma filter_key_eq_distinct:
  "distinct (map fst d) \<Longrightarrow> map_of d k = Some e \<Longrightarrow> filter (\<lambda>p. fst p = k) d = [(k, e)]"
proof (induction d)
  case Nil then show ?case by simp
next
  case (Cons p d)
  show ?case
  proof (cases "fst p = k")
    case True
    with Cons.prems have "p = (k, e)" by (cases p) auto
    moreover have "filter (\<lambda>q. fst q = k) d = []"
    proof -
      from True Cons.prems have "k \<notin> fst ` set d" by auto
      then have "\<forall>q\<in>set d. fst q \<noteq> k" by force
      then show ?thesis by (simp add: filter_empty_conv)
    qed
    ultimately show ?thesis by simp
  next
    case False
    with Cons show ?thesis by (cases p) auto
  qed
qed

lemma od_move_to_end_stored:
  "distinct (map fst d) \<Longrightarrow> map_of d k = Some e \<Longrightarrow> od_move_to_end k d = od_del k d @ [(k, e)]"
  by (simp add: od_move_to_end_def od_del_def filter_key_eq_distinct)

lemma od_contains_od_del [simp]: "\<not> od_contains (od_del k d) k"
  by (auto simp: od_contains_def od_del_def)

lemma od_setitem_last:
  "\<not> od_contains d k \<Longrightarrow> od_setitem k item (d @ [(k, e)]) = d @ [(k, item)]"
proof -
  assume a: "\<not> od_contains d k"
  then have "map (\<lambda>p. if fst p = k then (k, item) else p) d = d"
    by (intro map_idI) (auto simp: od_contains_def)
  then show ?thesis by (simp add: od_setitem_def od_contains_def)
qed

lemma keys_od_del: "map fst (od_del k d) = filter (\<lambda>x. x \<noteq> k) (map fst d)"
  by (simp add: od_del_def filter_map comp_def)

lemma distinct_od_del: "distinct (map fst d) \<Longrightarrow> distinct (map fst (od_del k d))"
  by (simp add: keys_od_del)

section \<open>The recency order is kept by every call\<close>


lemma lru_inv_distinct: "lru_inv stamp n d \<Longrightarrow> distinct (map fst d)"
proof -
  assume "lru_inv stamp n d"
  then have "distinct (map (\<lambda>p. stamp (fst p)) d)"
    unfolding lru_inv_def using strict_sorted_iff[of "map (\<lambda>p. stamp (fst p)) d"] by blast
  then have "distinct (map stamp (map fst d))" by (simp add: comp_def)
  then show ?thesis using distinct_map[of stamp "map fst d"] by blast
qed

lemma lru_inv_filter: "lru_inv stamp n d \<Longrightarrow> lru_inv stamp (Suc n) (filter P d)"
  unfolding lru_inv_def
  by (induction d) (auto simp: list_all_iff less_Suc_eq)

lemma lru_inv_same: "lru_inv stamp n d \<Longrightarrow> lru_inv stamp (Suc n) d"
  using lru_inv_filter[of stamp n d "\<lambda>_. True"] by simp

lemma lru_inv_tl: "lru_inv stamp n d \<Longrightarrow> lru_inv stamp (Suc n) (tl d)"
  unfolding lru_inv_def by (cases d) (auto simp: list_all_iff less_Suc_eq)

lemma lru_inv_touch:
  assumes "lru_inv stamp (Suc n) d'" and "list_all (\<lambda>p. stamp (fst p) < n) d'"
    and "\<not> od_contains d' k"
  shows "lru_inv (stamp(k := n)) (Suc n) (d' @ [(k, item)])"
proof -
  from assms(3) have nk: "\<forall>p\<in>set d'. fst p \<noteq> k" by (auto simp: od_contains_def)
  then have eq: "map (\<lambda>p. (stamp(k := n)) (fst p)) d' = map (\<lambda>p. stamp (fst p)) d'"
    by (intro map_cong) auto
  from assms(2) nk have lt: "\<forall>p\<in>set d'. (stamp(k := n)) (fst p) < n"
    by (auto simp: list_all_iff)
  from assms(1) have "sorted_wrt (<) (map (\<lambda>p. stamp (fst p)) d')" by (simp add: lru_inv_def)
  with eq have "sorted_wrt (<) (map (\<lambda>p. (stamp(k := n)) (fst p)) d')" by (simp only: eq)
  moreover have "(stamp(k := n)) k = n" by simp
  ultimately show ?thesis
    using lt unfolding lru_inv_def
    by (simp add: sorted_wrt_append list_all_iff less_Suc_eq del: fun_upd_apply)
qed

lemma MemoryBackend_set_False:
  "MemoryBackend_set fadd s key v ttl nx now = Inr (False, s') \<Longrightarrow> s' = s"
  by (auto simp: MemoryBackend_set_def od_popitem_first_def
           split: if_splits list.splits sum.splits)

lemma MemoryBackend_set_True:
  assumes "distinct (map fst (cache s))"
    and "MemoryBackend_set fadd s key v ttl nx now = Inr (True, s')"
  shows "\<exists>e. compute_expires_at fadd ttl now = Inr e
           \<and> s' = s\<lparr>cache :=
            (if od_contains (cache s) key then od_del key (cache s)
             else if int (length (cache s)) \<ge> max_size s then tl (cache s)
             else cache s) @ [(key, (v, e))]\<rparr>"
proof (cases "compute_expires_at fadd ttl now")
  case (Inl err)
  with assms(2) show ?thesis
    by (auto simp: MemoryBackend_set_def split: if_splits)
next
  case (Inr e)
  show ?thesis
  proof (cases "od_contains (cache s) key")
    case True
    then obtain e0 where e0: "map_of (cache s) key = Some e0"
      by (auto simp: od_contains_map_of)
    have "od_setitem key (v, e) (od_move_to_end key (cache s))
          = od_del key (cache s) @ [(key, (v, e))]"
      using assms(1) e0 by (simp add: od_move_to_end_stored od_setitem_last)
    with assms(2) True Inr show ?thesis
      by (auto simp: MemoryBackend_set_def split: if_splits)
  next
    case False
    then have nt: "\<not> od_contains (tl (cache s)) key"
      by (cases "cache s") (auto simp: od_contains_def)
    from assms(2) False nt Inr show ?thesis
      by (auto simp: MemoryBackend_set_def od_popitem_first_def od_setitem_new
               split: if_splits list.splits)
  qed
qed

lemma MemoryBackend_get_cache:
  assumes "distinct (map fst (cache s))"
  shows "cache (snd (MemoryBackend_get s key now)) =
     (case map_of (cache s) key of
        None \<Rightarrow> cache s
      | Some (v, e) \<Rightarrow> if is_expired e now then od_del key (cache s)
                       else od_del key (cache s) @ [(key, (v, e))])"
  using assms
  by (auto simp: MemoryBackend_get_def od_move_to_end_stored split: option.splits)

lemma list_all_filter: "list_all P d \<Longrightarrow> list_all P (filter Q d)"
  by (simp add: list_all_iff)

lemma list_all_tl: "list_all P d \<Longrightarrow> list_all P (tl d)"
  by (cases d) auto

lemma od_contains_tl: "\<not> od_contains d k \<Longrightarrow> \<not> od_contains (tl d) k"
  by (cases d) (auto simp: od_contains_def)

lemma lru_inv_call:
  assumes inv: "lru_inv stamp n (cache s)"
    and call: "MemoryBackend_call fadd s c = Inr (r, s')"
  shows "lru_inv (\<lambda>k. if touches fadd s c k then n else stamp k) (Suc n) (cache s')"
proof -
  have dist: "distinct (map fst (cache s))" using inv by (rule lru_inv_distinct)
  have bound: "list_all (\<lambda>p. stamp (fst p) < n) (cache s)" using inv by (simp add: lru_inv_def)
  show ?thesis
  proof (cases c)
    case (CallSet key v ttl nx now)
    from call CallSet obtain ok where
      set: "MemoryBackend_set fadd s key v ttl nx now = Inr (ok, s')"
      by (auto split: sum.splits)
    show ?thesis
    proof (cases ok)
      case False
      with set have "s' = s" by (simp add: MemoryBackend_set_False)
      moreover have "(\<lambda>k. if touches fadd s c k then n else stamp k) = stamp"
        using CallSet set False by auto
      ultimately show ?thesis using inv by (simp add: lru_inv_same)
    next
      case True
      let ?base = "if od_contains (cache s) key then od_del key (cache s)
                   else if int (length (cache s)) \<ge> max_size s then tl (cache s)
                   else cache s"
      from True set obtain e where s': "cache s' = ?base @ [(key, (v, e))]"
        using MemoryBackend_set_True[OF dist, of fadd key v ttl nx now s'] by auto
      have b1: "lru_inv stamp (Suc n) ?base"
        using inv by (auto simp: od_del_def lru_inv_filter lru_inv_tl lru_inv_same)
      have b2: "list_all (\<lambda>p. stamp (fst p) < n) ?base"
        using bound by (auto simp: od_del_def list_all_filter list_all_tl)
      have b3: "\<not> od_contains ?base key"
        by (auto simp: od_contains_tl)
      have st: "(\<lambda>k. if touches fadd s c k then n else stamp k) = stamp(key := n)"
        using CallSet set True by (auto simp: fun_eq_iff)
      show ?thesis unfolding st s' using b1 b2 b3 by (rule lru_inv_touch)
    qed
  next
    case (CallGet key now)
    from call CallGet have s': "s' = snd (MemoryBackend_get s key now)"
      by (auto split: prod.splits)
    show ?thesis
    proof (cases "map_of (cache s) key")
      case None
      then have "cache s' = cache s" using s' MemoryBackend_get_cache[OF dist, of key now] by simp
      moreover have "(\<lambda>k. if touches fadd s c k then n else stamp k) = stamp"
        using CallGet None by auto
      ultimately show ?thesis using inv by (simp add: lru_inv_same)
    next
      case (Some item)
      obtain v e where item: "item = (v, e)" by (cases item)
      show ?thesis
      proof (cases "is_expired e now")
        case True
        then have "cache s' = od_del key (cache s)"
          using s' Some item MemoryBackend_get_cache[OF dist, of key now] by simp
        moreover have "(\<lambda>k. if touches fadd s c k then n else stamp k) = stamp"
          using CallGet Some item True by auto
        ultimately show ?thesis using inv by (simp add: od_del_def lru_inv_filter)
      next
        case False
        then have c': "cache s' = od_del key (cache s) @ [(key, (v, e))]"
          using s' Some item MemoryBackend_get_cache[OF dist, of key now] by simp
        have st: "(\<lambda>k. if touches fadd s c k then n else stamp k) = stamp(key := n)"
          using CallGet Some item False by (auto simp: fun_eq_iff)
        have b1: "lru_inv stamp (Suc n) (od_del key (cache s))"
          using inv by (simp add: od_del_def lru_inv_filter)
        have b2: "list_all (\<lambda>p. stamp (fst p) < n) (od_del key (cache s))"
          using bound by (simp add: od_del_def list_all_filter)
        show ?thesis unfolding st c' using b1 b2 od_contains_od_del by (rule lru_inv_touch)
      qed
    qed
  next
    case (CallDelete key)
    with call have "cache s' = cache s \<or> cache s' = od_del key (cache s)"
      by (auto simp: MemoryBackend_delete_def split: if_splits)
    moreover have "(\<lambda>k. if touches fadd s c k then n else stamp k) = stamp"
      using CallDelete by auto
    ultimately show ?thesis using inv by (auto simp: od_del_def lru_inv_filter lru_inv_same)
  next
    case (CallCleanup now)
    with call have "cache s' = filter (\<lambda>p. \<not> is_expired (snd (snd p)) now) (cache s)"
      by (auto simp: MemoryBackend_cleanup_expired_def)
    moreover have "(\<lambda>k. if touches fadd s c k then n else stamp k) = stamp"
      using CallCleanup by auto
    ultimately show ?thesis using inv by (simp add: lru_inv_filter)
  qed
qed

lemma lru_inv_touch_stamps:
  "lru_inv stamp n (cache s) \<Longrightarrow> touch_stamps fadd s n stamp cs = Inr (s', n', stamp')
     \<Longrightarrow> lru_inv stamp' n' (cache s')"
proof (induction cs arbitrary: s n stamp)
  case Nil
  then show ?case by simp
next
  case (Cons c cs)
  from Cons.prems(2) obtain r s1 where
    c: "MemoryBackend_call fadd s c = Inr (r, s1)" and
    rest: "touch_stamps fadd s1 (Suc n) (\<lambda>k. if touches fadd s c k then n else stamp k) cs = Inr (s', n', stamp')"
    by (auto split: sum.splits)
  from Cons.prems(1) c have "lru_inv (\<lambda>k. if touches fadd s c k then n else stamp k) (Suc n) (cache s1)"
    by (rule lru_inv_call)
  then show ?case using rest by (rule Cons.IH)
qed

lemma lru_inv_init: "lru_inv (\<lambda>_. 0) 0 (cache (MemoryBackend_init m ci))"
  by (simp add: lru_inv_def MemoryBackend_init_def)

lemma eviction_removes_lru:
  assumes run: "touch_stamps fadd (MemoryBackend_init m ci) 0 (\<lambda>_. 0) cs = Inr (s, n, stamp)"
    and new: "\<not> od_contains (cache s) key"
    and full: "max_size s \<le> int (length (cache s))"
    and set: "MemoryBackend_set fadd s key v ttl nx now = Inr (True, s')"
  shows "cache s \<noteq> []
         \<and> (\<exists>e. compute_expires_at fadd ttl now = Inr e
                \<and> cache s' = tl (cache s) @ [(key, (v, e))])
         \<and> (\<forall>p\<in>set (tl (cache s)). stamp (fst (hd (cache s))) < stamp (fst p))"
proof -
  have inv: "lru_inv stamp n (cache s)"
    using lru_inv_init run by (rule lru_inv_touch_stamps)
  then have dist: "distinct (map fst (cache s))" by (rule lru_inv_distinct)
  from set new full have ne: "cache s \<noteq> []"
    by (auto simp: MemoryBackend_set_def od_popitem_first_def split: if_splits sum.splits)
  from MemoryBackend_set_True[OF dist set] new full
  have c': "\<exists>e. compute_expires_at fadd ttl now = Inr e
                \<and> cache s' = tl (cache s) @ [(key, (v, e))]" by auto
  from inv ne have "\<forall>p\<in>set (tl (cache s)). stamp (fst (hd (cache s))) < stamp (fst p)"
    unfolding lru_inv_def by (cases "cache s") auto
  with ne c' show ?thesis by simp
qed

lemma update_never_evicts:
  assumes "od_contains (cache s) key"
    and "MemoryBackend_set fadd s key v ttl nx now = Inr (ok, s')"
  shows "set (map fst (cache s')) = set (map fst (cache s))
           \<and> length (cache s') = length (cache s)"
proof -
  have k1: "set (map fst (od_move_to_end key (cache s))) = set (map fst (cache s))"
    by (auto simp: od_move_to_end_def)
  have k0: "length (od_move_to_end key d) = length d" for d :: "('a, 'b) ordered_dict"
    unfolding od_move_to_end_def
    using sum_length_filter_compl[of "\<lambda>p. fst p \<noteq> key" d] by (simp add: add.commute)
  have k2: "od_contains d key \<Longrightarrow> set (map fst (od_setitem key item d)) = set (map fst d)"
    for d :: "('a, 'b) ordered_dict" and item
    by (force simp: od_setitem_def od_contains_def)
  have k3: "od_contains d key \<Longrightarrow> length (od_setitem key item d) = length d"
    for d :: "('a, 'b) ordered_dict" and item
    by (simp add: od_setitem_def)
  have k4: "od_contains (od_move_to_end key (cache s)) key"
    using assms(1) k1 by (simp add: od_contains_def)
  from assms have "cache s' = cache s
      \<or> (\<exists>e. cache s' = od_setitem key (v, e) (od_move_to_end key (cache s)))"
    by (auto simp: MemoryBackend_set_def split: if_splits sum.splits)
  then show ?thesis
  proof
    assume "cache s' = cache s"
    then show ?thesis by simp
  next
    assume "\<exists>e. cache s' = od_setitem key (v, e) (od_move_to_end key (cache s))"
    then obtain e where "cache s' = od_setitem key (v, e) (od_move_to_end key (cache s))" ..
    then show ?thesis using k1 k2[OF k4, of "(v, e)"] k3[OF k4, of "(v, e)"] k0[of "cache s"]
      by simp
  qed
qed

lemma update_raises_only_overflow:
  assumes "od_contains (cache s) key"
    and "MemoryBackend_set fadd s key v ttl nx now = Inl err"
  shows "compute_expires_at fadd ttl now = Inl err"
  using assms by (auto simp: MemoryBackend_set_def split: if_splits sum.splits)


lemma map_of_filter_neq:
  "k' \<noteq> k \<Longrightarrow> map_of (filter (\<lambda>p. fst p \<noteq> k) d) k' = map_of d k'"
  by (induction d) auto

lemma map_of_filter_eq:
  "k' \<noteq> k \<Longrightarrow> map_of (filter (\<lambda>p. fst p = k) d) k' = None"
  by (induction d) auto

lemma map_of_od_move_to_end_other:
  "k' \<noteq> k \<Longrightarrow> map_of (od_move_to_end k d) k' = map_of d k'"
  by (simp add: od_move_to_end_def map_add_def map_of_filter_neq map_of_filter_eq
        split: option.splits)

lemma map_of_replace_other:
  "k' \<noteq> k \<Longrightarrow> map_of (map (\<lambda>p. if fst p = k then (k, item) else p) d) k' = map_of d k'"
  by (induction d) auto

lemma map_of_od_setitem_other:
  "k' \<noteq> k \<Longrightarrow> map_of (od_setitem k item d) k' = map_of d k'"
  by (simp add: od_setitem_def map_of_replace_other map_add_def split: option.splits)

lemma update_keeps_others:
  assumes "od_contains (cache s) key" and "MemoryBackend_set fadd s key v ttl nx now = Inr (ok, s')"
    and "k' \<noteq> key"
  shows "map_of (cache s') k' = map_of (cache s) k'"
  using assms
  by (auto simp: MemoryBackend_set_def map_of_od_setitem_other
                 map_of_od_move_to_end_other split: if_splits sum.splits)

lemma lru_scenario:
  fixes t :: "nat \<Rightarrow> time"
  assumes "distinct [a, b, c, d, e]"
  shows "MemoryBackend_returns fadd (MemoryBackend_init 3 ci)
       [CallSet a va None False (t 0), CallSet b vb None False (t 1),
        CallSet c vc None False (t 2), CallSet d vd None False (t 3),
        CallGet a (t 4), CallGet b (t 5), CallGet c (t 6), CallGet d (t 7),
        CallGet b (t 8), CallSet e ve None False (t 9),
        CallGet c (t 10), CallGet b (t 11), CallGet d (t 12), CallGet e (t 13)]
     = Inr [Returned_bool True, Returned_bool True, Returned_bool True, Returned_bool True,
            Returned_value None, Returned_value vb, Returned_value vc, Returned_value vd,
            Returned_value vb, Returned_bool True,
            Returned_value None, Returned_value vb, Returned_value vd, Returned_value ve]"
proof -
  have ne: "a \<noteq> b" "a \<noteq> c" "a \<noteq> d" "a \<noteq> e" "b \<noteq> c" "b \<noteq> d" "b \<noteq> e"
    "c \<noteq> d" "c \<noteq> e" "d \<noteq> e" "b \<noteq> a" "c \<noteq> a" "d \<noteq> a" "e \<noteq> a" "c \<noteq> b" "d \<noteq> b"
    "e \<noteq> b" "d \<noteq> c" "e \<noteq> c" "e \<noteq> d"
    using assms by auto
  show ?thesis using ne
  by (simp add: MemoryBackend_returns_def MemoryBackend_init_def MemoryBackend_set_def
      MemoryBackend_get_def
      od_contains_def od_setitem_def od_popitem_first_def od_move_to_end_def od_del_def
      compute_expires_at_def is_expired_def Let_def)
qed

section \<open>C3: eviction order of the memory backend\<close>

text \<open>
  Claim C3. On a memory backend of capacity 3 with no TTLs and distinct keys \<open>a\<close> to
  \<open>e\<close>: after \<^verbatim>\<open>set(a)\<close>, \<^verbatim>\<open>set(b)\<close>, \<^verbatim>\<open>set(c)\<close>, \<^verbatim>\<open>set(d)\<close>, \<^verbatim>\<open>get(a)\<close> is absent
  and \<^verbatim>\<open>get(b)\<close>, \<^verbatim>\<open>get(c)\<close>, \<^verbatim>\<open>get(d)\<close> return their values; a further \<^verbatim>\<open>get(b)\<close> before
  \<^verbatim>\<open>set(e)\<close> makes \<open>c\<close>, not \<open>b\<close>, the evicted entry. In general, after any run of
  calls on a fresh backend, a \<^verbatim>\<open>set\<close> of a new key at full capacity removes the head of
  the dictionary, whose last touch is older than that of every entry kept; and a \<^verbatim>\<open>set\<close>
  of a stored key keeps every key, the number of entries and every other entry (the
  only exception it can raise is the one of its float sum, raised before the store is
  touched).
\<close>

theorem lru_eviction_order:
  fixes t :: "nat \<Rightarrow> time"
  shows
  "(distinct [a, b, c, d, e] \<longrightarrow>
      MemoryBackend_returns fadd (MemoryBackend_init 3 ci)
       [CallSet a va None False (t 0), CallSet b vb None False (t 1),
        CallSet c vc None False (t 2), CallSet d vd None False (t 3),
        CallGet a (t 4), CallGet b (t 5), CallGet c (t 6), CallGet d (t 7),
        CallGet b (t 8), CallSet e ve None False (t 9),
        CallGet c (t 10), CallGet b (t 11), CallGet d (t 12), CallGet e (t 13)]
      = Inr [Returned_bool True, Returned_bool True, Returned_bool True, Returned_bool True,
             Returned_value None, Returned_value vb, Returned_value vc, Returned_value vd,
             Returned_value vb, Returned_bool True,
             Returned_value None, Returned_value vb, Returned_value vd, Returned_value ve])
   \<and> (touch_stamps fadd (MemoryBackend_init m cj) 0 (\<lambda>_. 0) cs = Inr (s, n, stamp)
        \<and> \<not> od_contains (cache s) key
        \<and> max_size s \<le> int (length (cache s))
        \<and> MemoryBackend_set fadd s key v ttl nx now = Inr (True, s') \<longrightarrow>
      cache s \<noteq> []
      \<and> (\<exists>ex. compute_expires_at fadd ttl now = Inr ex
             \<and> cache s' = tl (cache s) @ [(key, (v, ex))])
      \<and> (\<forall>p\<in>set (tl (cache s)). stamp (fst (hd (cache s))) < stamp (fst p)))
   \<and> (od_contains (cache u) ukey \<longrightarrow>
      (case MemoryBackend_set fadd u ukey uv uttl unx unow of
         Inl err \<Rightarrow> compute_expires_at fadd uttl unow = Inl err
       | Inr (ok, s3) \<Rightarrow>
           set (map fst (cache s3)) = set (map fst (cache u))
           \<and> length (cache s3) = length (cache u)
           \<and> (\<forall>k'. k' \<noteq> ukey \<longrightarrow> map_of (cache s3) k' = map_of (cache u) k')))"
proof (intro conjI impI)
  assume "distinct [a, b, c, d, e]"
  then show "MemoryBackend_returns fadd (MemoryBackend_init 3 ci)
       [CallSet a va None False (t 0), CallSet b vb None False (t 1),
        CallSet c vc None False (t 2), CallSet d vd None False (t 3),
        CallGet a (t 4), CallGet b (t 5), CallGet c (t 6), CallGet d (t 7),
        CallGet b (t 8), CallSet e ve None False (t 9),
        CallGet c (t 10), CallGet b (t 11), CallGet d (t 12), CallGet e (t 13)]
      = Inr [Returned_bool True, Returned_bool True, Returned_bool True, Returned_bool True,
             Returned_value None, Returned_value vb, Returned_value vc, Returned_value vd,
             Returned_value vb, Returned_bool True,
             Returned_value None, Returned_value vb, Returned_value vd, Returned_value ve]"
    by (rule lru_scenario)
next
  assume h: "touch_stamps fadd (MemoryBackend_init m cj) 0 (\<lambda>_. 0) cs = Inr (s, n, stamp)
        \<and> \<not> od_contains (cache s) key
        \<and> max_size s \<le> int (length (cache s))
        \<and> MemoryBackend_set fadd s key v ttl nx now = Inr (True, s')"
  from eviction_removes_lru[of fadd m cj cs s n stamp key v ttl nx now s'] h
  show "cache s \<noteq> []"
    and "\<exists>ex. compute_expires_at fadd ttl now = Inr ex
             \<and> cache s' = tl (cache s) @ [(key, (v, ex))]"
    and "\<forall>p\<in>set (tl (cache s)). stamp (fst (hd (cache s))) < stamp (fst p)"
    by blast+
next
  assume c: "od_contains (cache u) ukey"
  show "(case MemoryBackend_set fadd u ukey uv uttl unx unow of
         Inl err \<Rightarrow> compute_expires_at fadd uttl unow = Inl err
       | Inr (ok, s3) \<Rightarrow>
           set (map fst (cache s3)) = set (map fst (cache u))
           \<and> length (cache s3) = length (cache u)
           \<and> (\<forall>k'. k' \<noteq> ukey \<longrightarrow> map_of (cache s3) k' = map_of (cache u) k'))"
  proof (cases "MemoryBackend_set fadd u ukey uv uttl unx unow")
    case (Inl err)
    with update_raises_only_overflow[OF c Inl] show ?thesis by simp
  next
    case (Inr r)
    obtain ok s3 where r: "r = (ok, s3)" by (cases r)
    from Inr r have st: "MemoryBackend_set fadd u ukey uv uttl unx unow = Inr (ok, s3)" by simp
    have "\<forall>k'. k' \<noteq> ukey \<longrightarrow> map_of (cache s3) k' = map_of (cache u) k'"
      using update_keeps_others[OF c st] by blast
    with update_never_evicts[OF c st] st show ?thesis by simp
  qed
qed


theorem lru_eviction_order_witness:
  "distinct [''a'', ''b'', ''c'', ''d'', ''e'']
   \<and> MemoryBackend_returns exact_float_add (MemoryBackend_init 3 60)
       [CallSet ''a'' (Some ''1'') None False 0, CallSet ''b'' (Some ''2'') None False 1,
        CallSet ''c'' (Some ''3'') None False 2, CallSet ''d'' (Some ''4'') None False 3,
        CallGet ''a'' 4, CallGet ''b'' 5, CallGet ''c'' 6, CallGet ''d'' 7,
        CallGet ''b'' 8, CallSet ''e'' (Some ''5'') None False 9,
        CallGet ''c'' 10, CallGet ''b'' 11, CallGet ''d'' 12, CallGet ''e'' 13]
      = Inr [Returned_bool True, Returned_bool True, Returned_bool True, Returned_bool True,
             Returned_value None, Returned_value (Some ''2''), Returned_value (Some ''3''),
             Returned_value (Some ''4''), Returned_value (Some ''2''), Returned_bool True,
             Returned_value None, Returned_value (Some ''2''), Returned_value (Some ''4''),
             Returned_value (Some ''5'')]
   \<and> touch_stamps exact_float_add (MemoryBackend_init 2 60) 0 (\<lambda>_. 0)
        [CallSet ''a'' (Some ''1'') None False 0, CallSet ''b'' (Some ''2'') None False 1]
       = Inr (\<lparr>max_size = 2, cleanup_interval = 60, stop_cleanup = False, thread_joins = [],
                cache = [(''a'', (Some ''1'', None)), (''b'', (Some ''2'', None))]\<rparr>, 2,
              \<lambda>k. if k = ''b'' then 1 else if k = ''a'' then 0 else 0)
   \<and> MemoryBackend_set exact_float_add
        \<lparr>max_size = 2, cleanup_interval = 60, stop_cleanup = False, thread_joins = [],
          cache = [(''a'', (Some ''1'', None)), (''b'', (Some ''2'', None))]\<rparr>
        ''c'' (Some ''3'') None False 2
       = Inr (True, \<lparr>max_size = 2, cleanup_interval = 60, stop_cleanup = False, thread_joins = [],
                cache = [(''b'', (Some ''2'', None)), (''c'', (Some ''3'', None))]\<rparr>)
   \<and> \<not> od_contains [(''a'', (Some ''1'', None)), (''b'', (Some ''2'', None :: time option))] ''c''
   \<and> (2 :: int) \<le> int (length [(''a'', (Some ''1'', None :: time option)), (''b'', (Some ''2'', None))])
   \<and> (if ''a'' = ''b'' then 1 else if ''a'' = ''a'' then 0 else 0 :: nat)
       < (if ''b'' = ''b'' then 1 else if ''b'' = ''a'' then 0 else 0)
   \<and> od_contains [(''a'', (Some ''1'', None)), (''b'', (Some ''2'', None :: time option))] ''a''
   \<and> MemoryBackend_set exact_float_add
        \<lparr>max_size = 2, cleanup_interval = 60, stop_cleanup = False, thread_joins = [],
          cache = [(''a'', (Some ''1'', None)), (''b'', (Some ''2'', None))]\<rparr>
        ''a'' (Some ''9'') None False 3
       = Inr (True, \<lparr>max_size = 2, cleanup_interval = 60, stop_cleanup = False, thread_joins = [],
                cache = [(''b'', (Some ''2'', None)), (''a'', (Some ''9'', None))]\<rparr>)
   \<and> set (map fst [(''b'', (Some ''2'', None :: time option)), (''a'', (Some ''9'', None))])
       = set (map fst [(''a'', (Some ''1'', None :: time option)), (''b'', (Some ''2'', None))])
   \<and> map_of [(''b'', (Some ''2'', None :: time option)), (''a'', (Some ''9'', None))] ''b''
       = map_of [(''a'', (Some ''1'', None :: time option)), (''b'', (Some ''2'', None))] ''b''"
  using lru_eviction_order[where fadd = exact_float_add and a = "''a''" and b = "''b''" and c = "''c''" and d = "''d''"
     and e = "''e''" and ci = 60 and t = real
     and va = "Some ''1''" and vb = "Some ''2''" and vc = "Some ''3''" and vd = "Some ''4''"
     and ve = "Some ''5''" and m = 2 and cj = 60
     and cs = "[CallSet ''a'' (Some ''1'') None False 0, CallSet ''b'' (Some ''2'') None False 1]"
     and s = "\<lparr>max_size = 2, cleanup_interval = 60, stop_cleanup = False, thread_joins = [],
          cache = [(''a'', (Some ''1'', None)), (''b'', (Some ''2'', None))]\<rparr>"
     and n = 2 and stamp = "\<lambda>k. if k = ''b'' then 1 else if k = ''a'' then 0 else 0"
     and key = "''c''" and v = "Some ''3''" and ttl = None and nx = False and now = 2
     and s' = "\<lparr>max_size = 2, cleanup_interval = 60, stop_cleanup = False, thread_joins = [],
          cache = [(''b'', (Some ''2'', None)), (''c'', (Some ''3'', None))]\<rparr>"
     and u = "\<lparr>max_size = 2, cleanup_interval = 60, stop_cleanup = False, thread_joins = [],
          cache = [(''a'', (Some ''1'', None)), (''b'', (Some ''2'', None))]\<rparr>"
     and ukey = "''a''" and uv = "Some ''9''" and uttl = None and unx = False and unow = 3]
  by (auto simp add: mem_defs fun_eq_iff)

section \<open>Helper facts: truncation, slices, the keys of the file backend\<close>

lemma py_int_pos: "1 \<le> x \<Longrightarrow> py_int x = \<lfloor>x\<rfloor> \<and> 0 < py_int x"
  by (auto simp: py_int_def)

lemma py_int_neg: "x < 0 \<Longrightarrow> py_int x \<le> 0"
  by (simp add: py_int_def)

lemma set_py_slice: "set (py_slice xs i j) \<subseteq> set xs"
  unfolding py_slice_def Let_def
  by (meson set_take_subset set_drop_subset subset_trans)

lemma fnmatch_keys_subset:
  "fnmatch_keys fnmatch pattern ks = Inr ms \<Longrightarrow> set ms \<subseteq> set ks"
proof (induction ks arbitrary: ms)
  case Nil
  then show ?case by simp
next
  case (Cons k ks)
  then show ?case
    by (auto split: cache_key.splits sum.splits if_splits)
qed

lemma FileBackend_keys_unexpired:
  assumes "FileBackend_keys fnmatch s pattern cursor0 count max_keys now = Inr page"
    and "k \<in> set (keys page)"
  shows "\<exists>r\<in>set (cache_entries s).
           sql_column_value (row_key r) = k \<and> sql_unexpired (row_expires_at r) now"
proof -
  let ?all = "map (\<lambda>r. sql_column_value (row_key r))
                (sort_key (\<lambda>r. sql_order (row_key r))
                   (filter (\<lambda>r. sql_unexpired (row_expires_at r) now) (cache_entries s)))"
  obtain matched where m: "set matched \<subseteq> set ?all"
    and p: "set (keys page) \<subseteq> set matched"
  proof (cases "pattern \<noteq> ''*''")
    case True
    with assms(1) obtain ms where f: "fnmatch_keys fnmatch pattern ?all = Inr ms"
      and pg: "keys page = py_slice ms cursor0
                 (case max_keys of None \<Rightarrow> cursor0 + count
                  | Some m \<Rightarrow> min (cursor0 + count) (cursor0 + m))"
      by (auto simp: FileBackend_keys_def Let_def split: sum.splits)
    from fnmatch_keys_subset[OF f] pg set_py_slice[of ms] that show ?thesis by metis
  next
    case False
    with assms(1) have "keys page = py_slice ?all cursor0
                 (case max_keys of None \<Rightarrow> cursor0 + count
                  | Some m \<Rightarrow> min (cursor0 + count) (cursor0 + m))"
      by (auto simp: FileBackend_keys_def Let_def)
    with set_py_slice[of ?all] that[of ?all] show ?thesis by simp
  qed
  from assms(2) m p have "k \<in> set ?all" by blast
  then show ?thesis by auto
qed
section \<open>C4: \<^verbatim>\<open>keys\<close> and expired entries\<close>

text \<open>
  Claim C4 says that every key returned by \<^verbatim>\<open>keys\<close> belongs to an unexpired entry, on
  every engine. \<open>FileBackend_keys_unexpired\<close> above shows it for the file backend. The
  memory backend lists every stored key: after \<^verbatim>\<open>set("k", "v", ttl=1)\<close> at time 0, at
  time 5 \<^verbatim>\<open>get("k")\<close> is absent, yet \<^verbatim>\<open>keys()\<close> returns \<^verbatim>\<open>["k"]\<close>; the file backend
  returns no key for the same store.
\<close>

theorem memory_keys_lists_expired:
  "MemoryBackend_set exact_float_add (MemoryBackend_init 3 60) ''k'' (Some ''v'') (Some 1) False 0
     = Inr (True, \<lparr>max_size = 3, cleanup_interval = 60, stop_cleanup = False, thread_joins = [],
                  cache = [(''k'', (Some ''v'', Some 1))]\<rparr>)
   \<and> fst (MemoryBackend_get \<lparr>max_size = 3, cleanup_interval = 60, stop_cleanup = False,
              thread_joins = [], cache = [(''k'', (Some ''v'', Some 1))]\<rparr> ''k'' 5) = None
   \<and> keys (MemoryBackend_keys (\<lambda>k p. True)
        \<lparr>max_size = 3, cleanup_interval = 60, stop_cleanup = False,
              thread_joins = [], cache = [(''k'', (Some ''v'', Some 1))]\<rparr> ''*'' 0 100 None) = [''k'']
   \<and> FileBackend_keys (\<lambda>k p. True)
        \<lparr>max_size = 3, cleanup_interval = 300, stop_cleanup = False, thread_joins = [],
          cache_entries = [\<lparr>row_key = SqlText ''k'', row_value = ''v'', row_expires_at = Some 1,
                            row_last_access = 0, row_created_at = 0\<rparr>]\<rparr> ''*'' 0 100 None 5
       = Inr \<lparr>keys = [], cursor = 0, has_more = False, total_scanned = 0\<rparr>"
  by (simp add: mem_defs MemoryBackend_keys_def FileBackend_keys_def py_slice_def sql_unexpired_def)

section \<open>C6: \<^verbatim>\<open>close\<close> and the sweeper thread\<close>

text \<open>
  Claim C6 says that \<^verbatim>\<open>close\<close> sets the sweeper's stop event and joins the thread with a
  bounded timeout, on every engine. On a fresh file backend with a live thread it does
  both; on a fresh memory backend with a live thread the stop event stays unset and no
  \<^verbatim>\<open>join\<close> is made.
\<close>

theorem memory_close_leaves_sweeper_running:
  "stop_cleanup (MemoryBackend_close True (MemoryBackend_init 3 60 :: (string, string) MemoryBackend)) = False
   \<and> thread_joins (MemoryBackend_close True (MemoryBackend_init 3 60 :: (string, string) MemoryBackend)) = []
   \<and> stop_cleanup (FileBackend_close True (FileBackend_init 3 300 :: string FileBackend)) = True
   \<and> thread_joins (FileBackend_close True (FileBackend_init 3 300 :: string FileBackend)) = [1]"
  by (simp add: MemoryBackend_close_def MemoryBackend_init_def FileBackend_close_def
        FileBackend_init_def Let_def)

section \<open>C7: the sentinels of \<^verbatim>\<open>ttl\<close>\<close>

text \<open>
  Claim C7 says that \<^verbatim>\<open>ttl\<close> returns -2 exactly for a key with no live entry, -1 exactly
  for a live entry with no expiry, and a positive number of seconds for every live entry
  that expires in the future. Evaluated on two stores: on the memory backend an entry
  that expires at time 1 is returned by \<^verbatim>\<open>get\<close> at time 1/2, while \<^verbatim>\<open>ttl\<close> at that time
  truncates the half second to 0 and answers -2; the file backend has no \<^verbatim>\<open>ttl\<close> of its
  own, and the default of the base class answers -1 at time 0 for a row that expires at
  time 10.
\<close>

theorem ttl_misreports_live_entries:
  "MemoryBackend_ttl (-) \<lparr>max_size = 3, cleanup_interval = 60, stop_cleanup = False,
        thread_joins = [], cache = [(''k'', (Some ''v'', Some 1))]\<rparr> ''k'' (1 / 2) = - 2
   \<and> fst (MemoryBackend_get \<lparr>max_size = 3, cleanup_interval = 60, stop_cleanup = False,
        thread_joins = [], cache = [(''k'', (Some ''v'', Some 1))]\<rparr> ''k'' (1 / 2)) = Some ''v''
   \<and> BaseBackend_ttl (\<lambda>s k. FileBackend_exists Inr s k 0)
        \<lparr>max_size = 3, cleanup_interval = 300, stop_cleanup = False, thread_joins = [],
          cache_entries = [\<lparr>row_key = SqlText ''k'', row_value = Some ''v'',
                            row_expires_at = Some 10,
                            row_last_access = 0, row_created_at = 0\<rparr>]\<rparr> (KStr ''k'')
       = Inr (- 1, \<lparr>max_size = 3, cleanup_interval = 300, stop_cleanup = False, thread_joins = [],
          cache_entries = [\<lparr>row_key = SqlText ''k'', row_value = Some ''v'',
                            row_expires_at = Some 10,
                            row_last_access = 0, row_created_at = 0\<rparr>]\<rparr>)"
  by (simp add: MemoryBackend_ttl_def py_int_def mem_defs BaseBackend_ttl_def
        FileBackend_exists_def FileBackend_get_def py_str_def)

section \<open>C10: a stored \<^verbatim>\<open>None\<close> on the memory backend\<close>

text \<open>
  Claim C10 says that after a successful \<^verbatim>\<open>set(key, None)\<close> the memory backend answers
  \<^verbatim>\<open>get\<close> with absent, \<^verbatim>\<open>exists\<close> with false, omits the key from \<^verbatim>\<open>get_many\<close>, and
  answers \<^verbatim>\<open>delete\<close> with true. Evaluated on a fresh backend of capacity 3: all of it
  holds except that \<^verbatim>\<open>get_many\<close> maps the key to \<^verbatim>\<open>None\<close>, where the default
  \<^verbatim>\<open>get_many\<close> of the base class, run over the same \<^verbatim>\<open>get\<close>, omits it.
\<close>

theorem none_value_get_many:
  "MemoryBackend_set exact_float_add (MemoryBackend_init 3 60) ''k'' (None :: string option) None False 0
     = Inr (True, \<lparr>max_size = 3, cleanup_interval = 60, stop_cleanup = False, thread_joins = [],
                  cache = [(''k'', (None, None))]\<rparr>)
   \<and> fst (MemoryBackend_get \<lparr>max_size = 3, cleanup_interval = 60, stop_cleanup = False,
              thread_joins = [], cache = [(''k'', (None :: string option, None))]\<rparr> ''k'' 1) = None
   \<and> fst (MemoryBackend_exists \<lparr>max_size = 3, cleanup_interval = 60, stop_cleanup = False,
              thread_joins = [], cache = [(''k'', (None :: string option, None))]\<rparr> ''k'' 1) = False
   \<and> fst (MemoryBackend_delete \<lparr>max_size = 3, cleanup_interval = 60, stop_cleanup = False,
              thread_joins = [], cache = [(''k'', (None :: string option, None))]\<rparr> ''k'') = True
   \<and> fst (MemoryBackend_get_many \<lparr>max_size = 3, cleanup_interval = 60, stop_cleanup = False,
              thread_joins = [], cache = [(''k'', (None :: string option, None))]\<rparr> [''k''] 1) ''k''
       = Some None
   \<and> (case BaseBackend_get_many (MemoryBackend_get_op 1)
              \<lparr>max_size = 3, cleanup_interval = 60, stop_cleanup = False,
               thread_joins = [], cache = [(''k'', (None :: string option, None))]\<rparr> [''k''] of
         Inr (result, _) \<Rightarrow> result ''k'' = None | Inl _ \<Rightarrow> False)"
  by (simp add: mem_defs MemoryBackend_exists_def MemoryBackend_get_many_def
        BaseBackend_get_many_def MemoryBackend_get_op_def)

section \<open>Writes and reads of a single key\<close>





text \<open>
  Keys that \<^verbatim>\<open>set\<close> and \<^verbatim>\<open>get\<close> of the file backend bind to the same stored key: every
  \<^verbatim>\<open>str\<close>, and every \<^verbatim>\<open>int\<close> of 64 bits. A \<^verbatim>\<open>bytes\<close> key is stored as a blob and looked up as
  the text of its \<^verbatim>\<open>repr\<close>.
\<close>

lemma sql_bind_str: "sql_bind (KStr name_str) = Inr (SqlText (py_str (KStr name_str)))"
  by (simp add: sql_bind_def py_str_def)

lemma sql_bind_int:
  "- (2 ^ 63) \<le> i \<Longrightarrow> i < 2 ^ 63 \<Longrightarrow> sql_bind (KInt i) = Inr (SqlText (py_str (KInt i)))"
  by (simp add: sql_bind_def py_str_def)

lemma sql_bind_bytes: "sql_bind (KBytes b) \<noteq> Inr (SqlText (py_str (KBytes b)))"
  by (simp add: sql_bind_def)

lemma sql_bind_text_iff:
  "sql_bind key = Inr (SqlText (py_str key)) \<longleftrightarrow>
     (case key of KStr _ \<Rightarrow> True
      | KInt i \<Rightarrow> - (2 ^ 63) \<le> i \<and> i < 2 ^ 63
      | KBytes _ \<Rightarrow> False)"
  by (cases key) (simp_all add: sql_bind_def py_str_def)











section \<open>C1: a value set with a TTL\<close>




section \<open>C2: conditional set\<close>




section \<open>The batch loops of the memory backend\<close>

lemma map_of_filter_same:
  "map_of (filter (\<lambda>p. fst p = k) d) k = map_of d k"
  by (induction d) auto

lemma map_of_filter_neq_same:
  "map_of (filter (\<lambda>p. fst p \<noteq> k) d) k = None"
  by (induction d) auto

lemma map_of_od_move_to_end: "map_of (od_move_to_end key d) k = map_of d k"
proof (cases "k = key")
  case True
  then show ?thesis
    by (simp add: od_move_to_end_def map_add_def map_of_filter_same map_of_filter_neq_same
             split: option.splits)
next
  case False
  then show ?thesis by (simp add: map_of_od_move_to_end_other)
qed

lemma stored_live_move_to_end: "stored_live (od_move_to_end key d) now = stored_live d now"
  by (simp add: stored_live_def fun_eq_iff map_of_od_move_to_end)

lemma stored_live_del_expired:
  assumes "map_of d key = Some (v, e)" and "is_expired e now"
  shows "stored_live (od_del key d) now = stored_live d now"
proof
  fix k
  show "stored_live (od_del key d) now k = stored_live d now k"
  proof (cases "k = key")
    case True
    with assms show ?thesis
      by (simp add: stored_live_def od_del_def map_of_filter_neq_same)
  next
    case False
    then show ?thesis by (simp add: stored_live_def od_del_def map_of_filter_neq)
  qed
qed

lemma get_many_loop_result:
  "fst (MemoryBackend_get_many_loop ks now result s) =
     (\<lambda>k. if k \<in> set ks
          then (case stored_live (cache s) now k of None \<Rightarrow> result k | Some v \<Rightarrow> Some v)
          else result k)"
proof (induction ks arbitrary: result s)
  case Nil
  then show ?case by simp
next
  case (Cons key ks)
  show ?case
  proof (cases "map_of (cache s) key")
    case None
    then have sk: "stored_live (cache s) now key = None" by (simp add: stored_live_def)
    have step: "MemoryBackend_get_many_loop (key # ks) now result s
                = MemoryBackend_get_many_loop ks now result s"
      using None by simp
    show ?thesis unfolding step Cons.IH using sk by (auto simp: fun_eq_iff)
  next
    case (Some item)
    obtain v e where item: "item = (v, e)" by (cases item)
    show ?thesis
    proof (cases "is_expired e now")
      case True
      have sl: "stored_live (cache (s\<lparr>cache := od_del key (cache s)\<rparr>)) now
                = stored_live (cache s) now"
        using Some item True by (simp add: stored_live_del_expired)
      have sk: "stored_live (cache s) now key = None"
        using Some item True by (simp add: stored_live_def)
      have step: "MemoryBackend_get_many_loop (key # ks) now result s
                  = MemoryBackend_get_many_loop ks now result (s\<lparr>cache := od_del key (cache s)\<rparr>)"
        using Some item True by simp
      show ?thesis unfolding step Cons.IH sl using sk by (auto simp: fun_eq_iff)
    next
      case False
      have sl: "stored_live (cache (s\<lparr>cache := od_move_to_end key (cache s)\<rparr>)) now
                = stored_live (cache s) now"
        by (simp add: stored_live_move_to_end)
      have sk: "stored_live (cache s) now key = Some v"
        using Some item False by (simp add: stored_live_def)
      have step: "MemoryBackend_get_many_loop (key # ks) now result s
                  = MemoryBackend_get_many_loop ks now (result(key \<mapsto> v))
                      (s\<lparr>cache := od_move_to_end key (cache s)\<rparr>)"
        using Some item False by simp
      show ?thesis unfolding step Cons.IH sl using sk
        by (auto simp: fun_eq_iff split: option.splits)
    qed
  qed
qed

lemma get_many_loop_base:
  "list_all (\<lambda>p. fst (snd p) \<noteq> None) (cache s) \<Longrightarrow>
     BaseBackend_get_many_loop (MemoryBackend_get_op now) ks result s
       = Inr (MemoryBackend_get_many_loop ks now result s)"
proof (induction ks arbitrary: result s)
  case Nil
  then show ?case by simp
next
  case (Cons key ks)
  have del: "list_all (\<lambda>p. fst (snd p) \<noteq> None) (cache (s\<lparr>cache := od_del key (cache s)\<rparr>))"
    using Cons.prems by (simp add: od_del_def list_all_iff)
  have mv: "list_all (\<lambda>p. fst (snd p) \<noteq> None)
              (cache (s\<lparr>cache := od_move_to_end key (cache s)\<rparr>))"
    using Cons.prems by (auto simp: od_move_to_end_def list_all_iff)
  show ?case
  proof (cases "map_of (cache s) key")
    case None
    have g: "MemoryBackend_get_op now s key = Inr (None, s)"
      using None by (simp add: MemoryBackend_get_op_def MemoryBackend_get_def)
    have step: "MemoryBackend_get_many_loop (key # ks) now result s
                = MemoryBackend_get_many_loop ks now result s"
      using None by simp
    have b: "BaseBackend_get_many_loop (MemoryBackend_get_op now) (key # ks) result s
            = BaseBackend_get_many_loop (MemoryBackend_get_op now) ks result s"
      using g by simp
    show ?thesis unfolding step b by (rule Cons.IH[OF Cons.prems])
  next
    case (Some item)
    obtain v e where item: "item = (v, e)" by (cases item)
    from Some item have "(key, (v, e)) \<in> set (cache s)" by (simp add: map_of_SomeD)
    with Cons.prems have v: "v \<noteq> None" by (auto simp: list_all_iff)
    show ?thesis
    proof (cases "is_expired e now")
      case True
      have g: "MemoryBackend_get_op now s key = Inr (None, s\<lparr>cache := od_del key (cache s)\<rparr>)"
        using Some item True by (simp add: MemoryBackend_get_op_def MemoryBackend_get_def)
      have step: "MemoryBackend_get_many_loop (key # ks) now result s
                  = MemoryBackend_get_many_loop ks now result (s\<lparr>cache := od_del key (cache s)\<rparr>)"
        using Some item True by simp
      have b: "BaseBackend_get_many_loop (MemoryBackend_get_op now) (key # ks) result s
            = BaseBackend_get_many_loop (MemoryBackend_get_op now) ks result
                (s\<lparr>cache := od_del key (cache s)\<rparr>)"
        using g by simp
      show ?thesis unfolding step b by (rule Cons.IH[OF del])
    next
      case False
      have g: "MemoryBackend_get_op now s key
               = Inr (v, s\<lparr>cache := od_move_to_end key (cache s)\<rparr>)"
        using Some item False by (simp add: MemoryBackend_get_op_def MemoryBackend_get_def)
      have step: "MemoryBackend_get_many_loop (key # ks) now result s
                  = MemoryBackend_get_many_loop ks now (result(key \<mapsto> v))
                      (s\<lparr>cache := od_move_to_end key (cache s)\<rparr>)"
        using Some item False by simp
      have b: "BaseBackend_get_many_loop (MemoryBackend_get_op now) (key # ks) result s
            = BaseBackend_get_many_loop (MemoryBackend_get_op now) ks (result(key \<mapsto> v))
                (s\<lparr>cache := od_move_to_end key (cache s)\<rparr>)"
        using g v by simp
      show ?thesis unfolding step b by (rule Cons.IH[OF mv])
    qed
  qed
qed

lemma replace_filter_neq:
  "filter (\<lambda>p. fst p \<noteq> k) (map (\<lambda>p. if fst p = k then (k, item) else p) d)
   = filter (\<lambda>p. fst p \<noteq> k) d"
  by (induction d) auto

lemma replace_filter_eq:
  "filter (\<lambda>p. fst p = k) (map (\<lambda>p. if fst p = k then (k, item) else p) d)
   = map (\<lambda>p. if fst p = k then (k, item) else p) (filter (\<lambda>p. fst p = k) d)"
  by (induction d) auto

lemma replace_neq_id:
  "map (\<lambda>p. if fst p = k then (k, item) else p) (filter (\<lambda>p. fst p \<noteq> k) d)
   = filter (\<lambda>p. fst p \<noteq> k) d"
  by (induction d) auto

lemma od_contains_move_to_end: "od_contains (od_move_to_end k d) k = od_contains d k"
  by (auto simp: od_contains_def od_move_to_end_def)

lemma setitem_move_commute:
  assumes "od_contains d k"
  shows "od_setitem k item (od_move_to_end k d) = od_move_to_end k (od_setitem k item d)"
proof -
  have "od_setitem k item (od_move_to_end k d)
        = map (\<lambda>p. if fst p = k then (k, item) else p) (od_move_to_end k d)"
    using assms by (simp add: od_setitem_def od_contains_move_to_end)
  also have "\<dots> = filter (\<lambda>p. fst p \<noteq> k) d
                 @ map (\<lambda>p. if fst p = k then (k, item) else p) (filter (\<lambda>p. fst p = k) d)"
    by (simp add: od_move_to_end_def replace_neq_id)
  also have "\<dots> = od_move_to_end k (map (\<lambda>p. if fst p = k then (k, item) else p) d)"
    by (simp add: od_move_to_end_def replace_filter_neq replace_filter_eq)
  also have "\<dots> = od_move_to_end k (od_setitem k item d)"
    using assms by (simp add: od_setitem_def)
  finally show ?thesis .
qed

lemma move_to_end_new:
  assumes "\<not> od_contains d k"
  shows "od_move_to_end k (od_setitem k item d) = od_setitem k item d"
proof -
  from assms have "\<forall>p\<in>set d. fst p \<noteq> k" by (auto simp: od_contains_def)
  then have "filter (\<lambda>p. fst p \<noteq> k) d = d" "filter (\<lambda>p. fst p = k) d = []"
    by (simp_all add: filter_empty_conv)
  with assms show ?thesis by (simp add: od_setitem_def od_move_to_end_def)
qed

lemma set_many_step:
  assumes "max_size s \<noteq> 0" and that: "compute_expires_at fadd ttl now = Inr expires_at"
  shows "MemoryBackend_set_many_loop ((key, val) # items) expires_at s =
     (case MemoryBackend_set fadd s key val ttl False now of
        Inl e \<Rightarrow> Inl e
      | Inr (_, s') \<Rightarrow> MemoryBackend_set_many_loop items expires_at s')"
proof (cases "od_contains (cache s) key")
  case True
  then show ?thesis using assms
    by (simp add: MemoryBackend_set_def setitem_move_commute)
next
  case False
  then have nt: "\<not> od_contains (tl (cache s)) key" by (rule od_contains_tl)
  show ?thesis using assms False nt
    by (auto simp: MemoryBackend_set_def move_to_end_new od_popitem_first_def
             split: list.splits)
qed

lemma MemoryBackend_set_max_size:
  "MemoryBackend_set fadd s key val ttl nx now = Inr (ok, s') \<Longrightarrow> max_size s' = max_size s"
  by (auto simp: MemoryBackend_set_def split: if_splits sum.splits)

lemma set_many_loop_base:
  "max_size s \<noteq> 0 \<Longrightarrow> compute_expires_at fadd ttl now = Inr ex \<Longrightarrow>
     MemoryBackend_set_many_loop items ex s
       = BaseBackend_set_many (MemoryBackend_set_op fadd now) s items ttl"
proof (induction items arbitrary: s)
  case Nil
  then show ?case by simp
next
  case (Cons item items)
  obtain key val where item: "item = (key, val)" by (cases item)
  have st: "MemoryBackend_set_many_loop ((key, val) # items) ex s =
     (case MemoryBackend_set fadd s key val ttl False now of
        Inl e \<Rightarrow> Inl e
      | Inr (_, s') \<Rightarrow> MemoryBackend_set_many_loop items ex s')"
    using Cons.prems by (rule set_many_step)
  show ?case
  proof (cases "MemoryBackend_set fadd s key val ttl False now")
    case (Inl e)
    then show ?thesis unfolding item st by (simp add: MemoryBackend_set_op_def)
  next
    case (Inr r)
    obtain ok s' where r: "r = (ok, s')" by (cases r)
    from Inr r have "max_size s' = max_size s" by (simp add: MemoryBackend_set_max_size)
    with Cons.prems have "max_size s' \<noteq> 0" by simp
    from Cons.IH[OF this Cons.prems(2)] Inr r show ?thesis unfolding item st
      by (simp add: MemoryBackend_set_op_def)
  qed
qed

lemma set_many_zero_capacity:
  "max_size s = 0 \<Longrightarrow> BaseBackend_set_many (MemoryBackend_set_op fadd now) s items ttl = Inr s"
  by (induction items) (auto simp: MemoryBackend_set_op_def MemoryBackend_set_def)

lemma set_many_overflow:
  "max_size s \<noteq> 0 \<Longrightarrow> compute_expires_at fadd ttl now = Inl err \<Longrightarrow> items \<noteq> [] \<Longrightarrow>
     BaseBackend_set_many (MemoryBackend_set_op fadd now) s items ttl = Inl err"
  by (cases items) (auto simp: MemoryBackend_set_op_def MemoryBackend_set_def)

lemma set_many_base:
  assumes "items = [] \<longrightarrow> max_size s = 0 \<or> compute_expires_at fadd ttl now = Inr ex"
  shows "MemoryBackend_set_many fadd s items ttl now
         = BaseBackend_set_many (MemoryBackend_set_op fadd now) s items ttl"
proof (cases "max_size s = 0")
  case True
  then show ?thesis by (simp add: MemoryBackend_set_many_def set_many_zero_capacity)
next
  case False
  show ?thesis
  proof (cases "compute_expires_at fadd ttl now")
    case (Inl err)
    with assms False have "items \<noteq> []" by auto
    from set_many_overflow[OF False Inl this] False Inl show ?thesis
      by (simp add: MemoryBackend_set_many_def)
  next
    case (Inr e')
    from set_many_loop_base[OF False Inr] False Inr show ?thesis
      by (simp add: MemoryBackend_set_many_def)
  qed
qed

lemma delete_many_loop_count:
  "BaseBackend_delete_many_loop MemoryBackend_delete_op ks c s
     = Inr (c + int (card (set ks \<inter> set (map fst (cache s)))),
            s\<lparr>cache := filter (\<lambda>p. fst p \<notin> set ks) (cache s)\<rparr>)"
proof (induction ks arbitrary: c s)
  case Nil
  then show ?case by simp
next
  case (Cons key ks)
  show ?case
  proof (cases "od_contains (cache s) key")
    case True
    let ?s1 = "s\<lparr>cache := od_del key (cache s)\<rparr>"
    have d: "MemoryBackend_delete_op s key = Inr (True, ?s1)"
      using True by (simp add: MemoryBackend_delete_op_def MemoryBackend_delete_def)
    have keys1: "set (map fst (cache ?s1)) = set (map fst (cache s)) - {key}"
      by (auto simp: od_del_def)
    have "set (key # ks) \<inter> set (map fst (cache s))
          = insert key (set ks \<inter> (set (map fst (cache s)) - {key}))"
      using True by (auto simp: od_contains_def)
    then have card: "card (set (key # ks) \<inter> set (map fst (cache s)))
          = Suc (card (set ks \<inter> (set (map fst (cache s)) - {key})))"
      by simp
    have flt: "filter (\<lambda>p. fst p \<notin> set ks) (od_del key (cache s))
               = filter (\<lambda>p. fst p \<notin> set (key # ks)) (cache s)"
      by (auto simp: od_del_def intro: filter_cong)
    show ?thesis using d Cons.IH[of "c + 1" ?s1] keys1 card flt by simp
  next
    case False
    have d: "MemoryBackend_delete_op s key = Inr (False, s)"
      using False by (simp add: MemoryBackend_delete_op_def MemoryBackend_delete_def)
    have eq: "set (key # ks) \<inter> set (map fst (cache s)) = set ks \<inter> set (map fst (cache s))"
      using False by (auto simp: od_contains_def)
    have flt: "filter (\<lambda>p. fst p \<notin> set ks) (cache s)
               = filter (\<lambda>p. fst p \<notin> set (key # ks)) (cache s)"
      using False by (auto simp: od_contains_def intro: filter_cong)
    show ?thesis using d Cons.IH[of c s] flt unfolding eq by simp
  qed
qed


section \<open>C8: batch operations and the single-key operations\<close>

text \<open>
  Claim C8, as stated, fails. \<^verbatim>\<open>delete_many\<close> counts every stored key it removes: an
  entry whose expiry has passed, which \<^verbatim>\<open>get\<close> and \<^verbatim>\<open>exists\<close> report absent, is counted.
  \<^verbatim>\<open>set_many\<close> on a backend of capacity 1 keeps only the last of two pairs. And
  \<^verbatim>\<open>set_many({}, ttl=10**400)\<close> raises \<^verbatim>\<open>OverflowError\<close>, computing the expiry of an empty
  mapping, where the default loop over \<^verbatim>\<open>set\<close> makes no call.
\<close>

theorem batch_counterexample:
  "fst (MemoryBackend_get \<lparr>max_size = 3, cleanup_interval = 60, stop_cleanup = False,
              thread_joins = [], cache = [(''k'', (Some ''v'', Some 1))]\<rparr> ''k'' 5) = None
   \<and> fst (MemoryBackend_exists \<lparr>max_size = 3, cleanup_interval = 60, stop_cleanup = False,
              thread_joins = [], cache = [(''k'', (Some ''v'', Some 1))]\<rparr> ''k'' 5) = False
   \<and> MemoryBackend_delete_many \<lparr>max_size = 3, cleanup_interval = 60, stop_cleanup = False,
              thread_joins = [], cache = [(''k'', (Some ''v'', Some 1))]\<rparr> [''k'']
      = Inr (1, \<lparr>max_size = 3, cleanup_interval = 60, stop_cleanup = False,
              thread_joins = [], cache = []\<rparr>)
   \<and> MemoryBackend_set_many exact_float_add (MemoryBackend_init 1 60)
        [(''a'', Some ''1''), (''b'', Some ''2'')] None 0
      = Inr \<lparr>max_size = 1, cleanup_interval = 60, stop_cleanup = False,
              thread_joins = [], cache = [(''b'', (Some ''2'', None))]\<rparr>
   \<and> MemoryBackend_set_many exact_float_add
        (MemoryBackend_init 3 60 :: (string, string) MemoryBackend) [] (Some (10 ^ 400)) 0
      = Inl OverflowError
   \<and> BaseBackend_set_many (MemoryBackend_set_op exact_float_add 0)
        (MemoryBackend_init 3 60 :: (string, string) MemoryBackend) [] (Some (10 ^ 400))
      = Inr (MemoryBackend_init 3 60)"
  by (simp add: mem_defs MemoryBackend_exists_def MemoryBackend_delete_many_def
        BaseBackend_delete_many_def MemoryBackend_delete_op_def MemoryBackend_set_many_def)

text \<open>
  Claim C8, amended. On the memory backend, at one clock reading: when no stored value is
  \<^verbatim>\<open>None\<close>, \<^verbatim>\<open>get_many\<close> returns the mapping and leaves the backend that the default loop
  over \<^verbatim>\<open>get\<close> does; its mapping holds exactly the requested keys with an unexpired stored
  entry, each with its value; \<^verbatim>\<open>set_many\<close> is the default loop over \<^verbatim>\<open>set\<close>, with the same
  result, error or final backend, except on an empty mapping when the capacity is not 0
  and the expiry cannot be computed: there \<^verbatim>\<open>set_many\<close> raises the exception of the sum and
  the loop does nothing; and \<^verbatim>\<open>delete_many\<close>, the default loop over \<^verbatim>\<open>delete\<close>, removes
  the requested keys and returns how many distinct requested keys were stored, expired
  or not. (The file backend keeps all three default loops.)
\<close>

theorem batch_operations:
  "(list_all (\<lambda>p. fst (snd p) \<noteq> None) (cache s) \<longrightarrow>
      BaseBackend_get_many (MemoryBackend_get_op now) s ks
        = Inr (MemoryBackend_get_many s ks now))
   \<and> fst (MemoryBackend_get_many sa ksa nowa)
       = (\<lambda>k. if k \<in> set ksa then stored_live (cache sa) nowa k else None)
   \<and> ((items = [] \<longrightarrow> max_size sb = 0 \<or> compute_expires_at fadd ttl nowb = Inr eb) \<longrightarrow>
        MemoryBackend_set_many fadd sb items ttl nowb
          = BaseBackend_set_many (MemoryBackend_set_op fadd nowb) sb items ttl)
   \<and> (max_size sd \<noteq> 0 \<and> compute_expires_at fadd ttld nowd = Inl errd \<longrightarrow>
        MemoryBackend_set_many fadd sd [] ttld nowd = Inl errd
        \<and> BaseBackend_set_many (MemoryBackend_set_op fadd nowd) sd [] ttld = Inr sd)
   \<and> MemoryBackend_delete_many sc ksc
       = Inr (int (card (set ksc \<inter> set (map fst (cache sc)))),
              sc\<lparr>cache := filter (\<lambda>p. fst p \<notin> set ksc) (cache sc)\<rparr>)"
proof (intro conjI impI)
  assume "list_all (\<lambda>p. fst (snd p) \<noteq> None) (cache s)"
  then show "BaseBackend_get_many (MemoryBackend_get_op now) s ks
        = Inr (MemoryBackend_get_many s ks now)"
    unfolding BaseBackend_get_many_def MemoryBackend_get_many_def by (rule get_many_loop_base)
next
  show "fst (MemoryBackend_get_many sa ksa nowa)
       = (\<lambda>k. if k \<in> set ksa then stored_live (cache sa) nowa k else None)"
    unfolding MemoryBackend_get_many_def get_many_loop_result
    by (auto simp: fun_eq_iff split: option.splits)
next
  assume "items = [] \<longrightarrow> max_size sb = 0 \<or> compute_expires_at fadd ttl nowb = Inr eb"
  then show "MemoryBackend_set_many fadd sb items ttl nowb
       = BaseBackend_set_many (MemoryBackend_set_op fadd nowb) sb items ttl"
    by (rule set_many_base)
next
  assume h: "max_size sd \<noteq> 0 \<and> compute_expires_at fadd ttld nowd = Inl errd"
  then show "MemoryBackend_set_many fadd sd [] ttld nowd = Inl errd"
    by (simp add: MemoryBackend_set_many_def)
  show "BaseBackend_set_many (MemoryBackend_set_op fadd nowd) sd [] ttld = Inr sd"
    by simp
next
  show "MemoryBackend_delete_many sc ksc
       = Inr (int (card (set ksc \<inter> set (map fst (cache sc)))),
              sc\<lparr>cache := filter (\<lambda>p. fst p \<notin> set ksc) (cache sc)\<rparr>)"
    unfolding MemoryBackend_delete_many_def BaseBackend_delete_many_def
    using delete_many_loop_count[of ksc 0 sc] by simp
qed

theorem batch_operations_witness:
  "list_all (\<lambda>p. fst (snd p) \<noteq> None) [(''a'', (Some ''1'', None :: time option)), (''b'', (Some ''2'', Some 1))]
   \<and> BaseBackend_get_many (MemoryBackend_get_op 5)
        \<lparr>max_size = 3, cleanup_interval = 60, stop_cleanup = False, thread_joins = [],
          cache = [(''a'', (Some ''1'', None)), (''b'', (Some ''2'', Some 1))]\<rparr> [''a'', ''b'', ''z'']
      = Inr (MemoryBackend_get_many
        \<lparr>max_size = 3, cleanup_interval = 60, stop_cleanup = False, thread_joins = [],
          cache = [(''a'', (Some ''1'', None)), (''b'', (Some ''2'', Some 1))]\<rparr> [''a'', ''b'', ''z''] 5)
   \<and> fst (MemoryBackend_get_many
        \<lparr>max_size = 3, cleanup_interval = 60, stop_cleanup = False, thread_joins = [],
          cache = [(''a'', (Some ''1'', None)), (''b'', (Some ''2'', Some 1))]\<rparr> [''a'', ''b'', ''z''] 5)
       ''a'' = Some (Some ''1'')
   \<and> fst (MemoryBackend_get_many
        \<lparr>max_size = 3, cleanup_interval = 60, stop_cleanup = False, thread_joins = [],
          cache = [(''a'', (Some ''1'', None)), (''b'', (Some ''2'', Some 1))]\<rparr> [''a'', ''b'', ''z''] 5)
       ''b'' = None
   \<and> fst (MemoryBackend_get_many
        \<lparr>max_size = 3, cleanup_interval = 60, stop_cleanup = False, thread_joins = [],
          cache = [(''a'', (Some ''1'', None)), (''b'', (Some ''2'', Some 1))]\<rparr> [''a'', ''b'', ''z''] 5)
       ''z'' = None
   \<and> MemoryBackend_set_many exact_float_add (MemoryBackend_init 3 60)
        [(''a'', Some ''1''), (''b'', Some ''2'')] (Some 10) 0
      = Inr \<lparr>max_size = 3, cleanup_interval = 60, stop_cleanup = False, thread_joins = [],
          cache = [(''a'', (Some ''1'', Some 10)), (''b'', (Some ''2'', Some 10))]\<rparr>
   \<and> BaseBackend_set_many (MemoryBackend_set_op exact_float_add 0) (MemoryBackend_init 3 60)
        [(''a'', Some ''1''), (''b'', Some ''2'')] (Some 10)
      = Inr \<lparr>max_size = 3, cleanup_interval = 60, stop_cleanup = False, thread_joins = [],
          cache = [(''a'', (Some ''1'', Some 10)), (''b'', (Some ''2'', Some 10))]\<rparr>
   \<and> max_size (MemoryBackend_init 3 60 :: (string, string) MemoryBackend) \<noteq> 0
   \<and> compute_expires_at exact_float_add (Some (10 ^ 400)) 0 = Inl OverflowError
   \<and> MemoryBackend_set_many exact_float_add
        (MemoryBackend_init 3 60 :: (string, string) MemoryBackend) [] (Some (10 ^ 400)) 0
      = Inl OverflowError
   \<and> MemoryBackend_delete_many
        \<lparr>max_size = 3, cleanup_interval = 60, stop_cleanup = False, thread_joins = [],
          cache = [(''a'', (Some ''1'', None)), (''b'', (Some ''2'', Some 1))]\<rparr> [''a'', ''z'', ''a'']
      = Inr (1, \<lparr>max_size = 3, cleanup_interval = 60, stop_cleanup = False, thread_joins = [],
          cache = [(''b'', (Some ''2'', Some 1))]\<rparr>)"
  using batch_operations[where fadd = exact_float_add and s = "\<lparr>max_size = 3, cleanup_interval = 60, stop_cleanup = False,
          thread_joins = [],
          cache = [(''a'', (Some ''1'', None)), (''b'', (Some ''2'', Some 1))]\<rparr>"
      and now = 5 and ks = "[''a'', ''b'', ''z'']"
      and sa = "\<lparr>max_size = 3, cleanup_interval = 60, stop_cleanup = False,
          thread_joins = [],
          cache = [(''a'', (Some ''1'', None)), (''b'', (Some ''2'', Some 1))]\<rparr>"
      and nowa = 5 and ksa = "[''a'', ''b'', ''z'']"
      and sb = "MemoryBackend_init 3 60" and items = "[(''a'', Some ''1''), (''b'', Some ''2'')]"
      and ttl = "Some 10" and nowb = 0 and eb = "Some 10"
      and sd = "MemoryBackend_init 3 60 :: (string, string) MemoryBackend"
      and ttld = "Some (10 ^ 400)" and nowd = 0 and errd = OverflowError
      and sc = "\<lparr>max_size = 3, cleanup_interval = 60, stop_cleanup = False,
          thread_joins = [],
          cache = [(''a'', (Some ''1'', None)), (''b'', (Some ''2'', Some 1))]\<rparr>"
      and ksc = "[''a'', ''z'', ''a'']"]
  by (simp add: mem_defs MemoryBackend_get_many_def stored_live_def
        MemoryBackend_set_many_def MemoryBackend_delete_many_def
        BaseBackend_delete_many_def MemoryBackend_delete_op_def MemoryBackend_set_op_def)

section \<open>C5: how \<^verbatim>\<open>acquire\<close> claims the lock\<close>

lemmas lock_defs = DistributedLock_init_def DistributedLock_acquire_read_def
  DistributedLock_acquire_write_def DistributedLock_acquire_round_def
  DistributedLock_release_def CacheManager_get_def CacheManager_set_def CacheManager_delete_def

text \<open>
  Claim C5 says that \<^verbatim>\<open>acquire\<close> claims the lock with one conditional set, a write that
  happens only if the key is still absent. The write of \<^verbatim>\<open>acquire\<close> is an unconditional
  \<^verbatim>\<open>set\<close> after a separate \<^verbatim>\<open>get\<close>, and its result is dropped. Two locks on the name
  \<open>r\<close> over one memory backend: both reads find the key absent; the first write stores
  \<open>id1\<close>; the second write, made while \<open>id1\<close> is stored, overwrites it with \<open>id2\<close> and
  reports success, where a conditional set of the same arguments answers false and
  changes nothing. On a backend of capacity 0, where every \<^verbatim>\<open>set\<close> is refused, one
  \<^verbatim>\<open>acquire\<close> after the other returns true.
\<close>

theorem acquire_is_unconditional_write:
  "DistributedLock_acquire_read CacheManager_get
       (DistributedLock_init ''r'' 10 True None ''id1'') (MemoryBackend_init 100 60) 0
     = Inr (None, MemoryBackend_init 100 60)
   \<and> DistributedLock_acquire_read CacheManager_get
       (DistributedLock_init ''r'' 10 True None ''id2'') (MemoryBackend_init 100 60) 0
     = Inr (None, MemoryBackend_init 100 60)
   \<and> DistributedLock_acquire_write (CacheManager_set exact_float_add)
       (DistributedLock_init ''r'' 10 True None ''id1'') (MemoryBackend_init 100 60) 0
     = Inr (True, (DistributedLock_init ''r'' 10 True None ''id1'')\<lparr>locked := True\<rparr>,
            \<lparr>max_size = 100, cleanup_interval = 60, stop_cleanup = False, thread_joins = [],
             cache = [(''lock:r'', (Some ''id1'', Some 10))]\<rparr>)
   \<and> DistributedLock_acquire_write (CacheManager_set exact_float_add)
       (DistributedLock_init ''r'' 10 True None ''id2'')
       \<lparr>max_size = 100, cleanup_interval = 60, stop_cleanup = False, thread_joins = [],
         cache = [(''lock:r'', (Some ''id1'', Some 10))]\<rparr> 0
     = Inr (True, (DistributedLock_init ''r'' 10 True None ''id2'')\<lparr>locked := True\<rparr>,
            \<lparr>max_size = 100, cleanup_interval = 60, stop_cleanup = False, thread_joins = [],
             cache = [(''lock:r'', (Some ''id2'', Some 10))]\<rparr>)
   \<and> CacheManager_set exact_float_add
       \<lparr>max_size = 100, cleanup_interval = 60, stop_cleanup = False, thread_joins = [],
         cache = [(''lock:r'', (Some ''id1'', Some 10))]\<rparr> ''lock:r'' (Some ''id2'') (Some 10) True 0
     = Inr (False, \<lparr>max_size = 100, cleanup_interval = 60, stop_cleanup = False, thread_joins = [],
         cache = [(''lock:r'', (Some ''id1'', Some 10))]\<rparr>)
   \<and> DistributedLock_acquire (-) CacheManager_get (CacheManager_set exact_float_add)
       (DistributedLock_init ''r'' 10 True None ''id1'') (MemoryBackend_init 0 60) 0 0
     = Some (Inr (True, (DistributedLock_init ''r'' 10 True None ''id1'')\<lparr>locked := True\<rparr>,
                  MemoryBackend_init 0 60))
   \<and> DistributedLock_acquire (-) CacheManager_get (CacheManager_set exact_float_add)
       (DistributedLock_init ''r'' 10 True None ''id2'') (MemoryBackend_init 0 60) 0 0
     = Some (Inr (True, (DistributedLock_init ''r'' 10 True None ''id2'')\<lparr>locked := True\<rparr>,
                  MemoryBackend_init 0 60))"
  by (simp add: DistributedLock_acquire.simps lock_defs mem_defs)

section \<open>C9: \<^verbatim>\<open>release\<close> and ownership\<close>

lemma acquire_round_keeps_lock:
  assumes "DistributedLock_acquire_round fsub mget mset lk s start_time now = Inr (r, lk', s')"
    and "r \<noteq> Done True"
  shows "lk' = lk"
  using assms
  by (auto simp: DistributedLock_acquire_round_def DistributedLock_acquire_write_def
           split: sum.splits if_splits prod.splits)

lemma acquire_refused_keeps_lock:
  assumes "DistributedLock_acquire fsub mget mset lk s start_time now = Some y"
  shows "\<forall>lk' s'. y = Inr (False, lk', s') \<longrightarrow> lk' = lk"
proof (rule DistributedLock_acquire.raw_induct
    [where P = "\<lambda>fsub mget mset lk s start_time now y. \<forall>lk' s'. y = Inr (False, lk', s') \<longrightarrow> lk' = lk",
     OF _ assms])
  fix acquire fsub mget mset lk s start_time now y
  assume IH: "\<And>fsub mget mset lk s start_time now y.
      acquire fsub mget mset lk s start_time now = Some y \<Longrightarrow>
      \<forall>lk' s'. y = Inr (False, lk', s') \<longrightarrow> lk' = lk"
    and body: "(case DistributedLock_acquire_round fsub mget mset lk s start_time now of
        Inl e \<Rightarrow> Some (Inl e)
      | Inr (Done ok, lk', s') \<Rightarrow> Some (Inr (ok, lk', s'))
      | Inr (Retry, lk', s') \<Rightarrow> acquire fsub mget mset lk' s' start_time (now + 1 / 100)) = Some y"
  show "\<forall>lk' s'. y = Inr (False, lk', s') \<longrightarrow> lk' = lk"
  proof (cases "DistributedLock_acquire_round fsub mget mset lk s start_time now")
    case (Inl e)
    with body show ?thesis by auto
  next
    case (Inr res)
    obtain r lk1 s1 where res: "res = (r, lk1, s1)" by (cases res)
    show ?thesis
    proof (cases r)
      case (Done ok)
      with Inr res body have y: "y = Inr (ok, lk1, s1)" by simp
      show ?thesis
      proof (cases ok)
        case True
        with y show ?thesis by simp
      next
        case False
        with Inr res Done have "lk1 = lk"
          using acquire_round_keeps_lock[of fsub mget mset lk s start_time now r lk1 s1] by simp
        with y show ?thesis by simp
      qed
    next
      case Retry
      with Inr res have lk1: "lk1 = lk"
        using acquire_round_keeps_lock[of fsub mget mset lk s start_time now r lk1 s1] by simp
      from Inr res Retry body have
        "acquire fsub mget mset lk1 s1 start_time (now + 1 / 100) = Some y" by simp
      from IH[OF this] lk1 show ?thesis by simp
    qed
  qed
qed

lemma map_of_od_del: "map_of (od_del key d) k = (if k = key then None else map_of d k)"
  by (simp add: od_del_def map_of_filter_neq map_of_filter_neq_same)

text \<open>
  Claim C9. A lock that is not marked locked releases nothing: \<^verbatim>\<open>release\<close> returns the
  lock and the backend as they were, whatever the backend. A lock whose \<^verbatim>\<open>acquire\<close>
  returned false is still not marked locked, so its \<^verbatim>\<open>release\<close> changes nothing. A lock
  marked locked calls \<^verbatim>\<open>delete\<close> only when \<^verbatim>\<open>get\<close> returns its own identifier: when
  \<^verbatim>\<open>get\<close> returns anything else, the outcome is the backend that \<^verbatim>\<open>get\<close> left, whatever
  \<^verbatim>\<open>delete\<close> would do. On the memory backend: an unexpired entry of another value under
  the lock's key stays stored, with every other entry; an unexpired entry holding the
  lock's own identifier is removed, the lock is marked unlocked, and every other entry
  stays.
\<close>

theorem release_ownership:
  "(\<not> locked lk \<longrightarrow> DistributedLock_release mget mdel lk s now = Inr (lk, s))
   \<and> (DistributedLock_acquire fsub aget aset (DistributedLock_init nm tmo blk btmo uid) sa ta ta
        = Some (Inr (False, lka, sa')) \<longrightarrow>
      \<not> locked lka \<and> DistributedLock_release bget bdel lka sa' tb = Inr (lka, sa'))
   \<and> (locked lkc \<and> cget sc (name lkc) tc = Inr (cur, sc') \<and> cur \<noteq> Some (identifier lkc) \<longrightarrow>
      DistributedLock_release cget cdel lkc sc tc = Inr (lkc, sc'))
   \<and> (locked lkd \<and> stored_live (cache sd) td (name lkd) = Some vd \<and> vd \<noteq> Some (identifier lkd)
      \<longrightarrow>
      (\<exists>sd'. DistributedLock_release CacheManager_get CacheManager_delete lkd sd td = Inr (lkd, sd')
          \<and> (\<forall>k. map_of (cache sd') k = map_of (cache sd) k)))
   \<and> (locked lke \<and> stored_live (cache se) te (name lke) = Some (Some (identifier lke)) \<longrightarrow>
      (\<exists>se'. DistributedLock_release CacheManager_get CacheManager_delete lke se te
              = Inr (lke\<lparr>locked := False\<rparr>, se')
          \<and> (\<forall>k. map_of (cache se') k = (if k = name lke then None else map_of (cache se) k))))"
proof (intro conjI impI)
  assume "\<not> locked lk"
  then show "DistributedLock_release mget mdel lk s now = Inr (lk, s)"
    by (simp add: DistributedLock_release_def)
next
  assume a: "DistributedLock_acquire fsub aget aset (DistributedLock_init nm tmo blk btmo uid) sa ta ta
        = Some (Inr (False, lka, sa'))"
  from acquire_refused_keeps_lock[OF a] have "lka = DistributedLock_init nm tmo blk btmo uid"
    by simp
  then show "\<not> locked lka" and "DistributedLock_release bget bdel lka sa' tb = Inr (lka, sa')"
    by (simp_all add: DistributedLock_init_def DistributedLock_release_def)
next
  assume "locked lkc \<and> cget sc (name lkc) tc = Inr (cur, sc') \<and> cur \<noteq> Some (identifier lkc)"
  then show "DistributedLock_release cget cdel lkc sc tc = Inr (lkc, sc')"
    by (simp add: DistributedLock_release_def)
next
  assume h: "locked lkd \<and> stored_live (cache sd) td (name lkd) = Some vd
             \<and> vd \<noteq> Some (identifier lkd)"
  then obtain e where e: "map_of (cache sd) (name lkd) = Some (vd, e)" "\<not> is_expired e td"
    by (auto simp: stored_live_def split: option.splits if_splits)
  let ?s' = "sd\<lparr>cache := od_move_to_end (name lkd) (cache sd)\<rparr>"
  have "DistributedLock_release CacheManager_get CacheManager_delete lkd sd td = Inr (lkd, ?s')"
    using h e by (simp add: DistributedLock_release_def CacheManager_get_def MemoryBackend_get_def)
  moreover have "\<forall>k. map_of (cache ?s') k = map_of (cache sd) k"
    by (simp add: map_of_od_move_to_end)
  ultimately show "\<exists>sd'. DistributedLock_release CacheManager_get CacheManager_delete lkd sd td
            = Inr (lkd, sd')
          \<and> (\<forall>k. map_of (cache sd') k = map_of (cache sd) k)"
    by blast
next
  assume h: "locked lke \<and> stored_live (cache se) te (name lke) = Some (Some (identifier lke))"
  then obtain e where e: "map_of (cache se) (name lke) = Some (Some (identifier lke), e)"
      "\<not> is_expired e te"
    by (auto simp: stored_live_def split: option.splits if_splits)
  let ?s1 = "se\<lparr>cache := od_move_to_end (name lke) (cache se)\<rparr>"
  let ?s2 = "?s1\<lparr>cache := od_del (name lke) (cache ?s1)\<rparr>"
  have c: "od_contains (cache ?s1) (name lke)"
    using e by (simp add: od_contains_map_of map_of_od_move_to_end)
  have "DistributedLock_release CacheManager_get CacheManager_delete lke se te
        = Inr (lke\<lparr>locked := False\<rparr>, ?s2)"
    using h e c
    by (simp add: DistributedLock_release_def CacheManager_get_def MemoryBackend_get_def
          CacheManager_delete_def MemoryBackend_delete_def)
  moreover have "\<forall>k. map_of (cache ?s2) k = (if k = name lke then None else map_of (cache se) k)"
    by (simp add: map_of_od_del map_of_od_move_to_end)
  ultimately show "\<exists>se'. DistributedLock_release CacheManager_get CacheManager_delete lke se te
              = Inr (lke\<lparr>locked := False\<rparr>, se')
          \<and> (\<forall>k. map_of (cache se') k = (if k = name lke then None else map_of (cache se) k))"
    by blast
qed

theorem release_ownership_witness:
  "\<not> locked (DistributedLock_init ''r'' 10 False None ''id2'')
   \<and> DistributedLock_release CacheManager_get CacheManager_delete
        (DistributedLock_init ''r'' 10 False None ''id2'')
        \<lparr>max_size = 100, cleanup_interval = 60, stop_cleanup = False, thread_joins = [],
          cache = [(''lock:r'', (Some ''id1'', Some 10))]\<rparr> 1
      = Inr (DistributedLock_init ''r'' 10 False None ''id2'',
        \<lparr>max_size = 100, cleanup_interval = 60, stop_cleanup = False, thread_joins = [],
          cache = [(''lock:r'', (Some ''id1'', Some 10))]\<rparr>)
   \<and> DistributedLock_acquire (-) CacheManager_get (CacheManager_set exact_float_add)
        (DistributedLock_init ''r'' 10 False None ''id2'')
        \<lparr>max_size = 100, cleanup_interval = 60, stop_cleanup = False, thread_joins = [],
          cache = [(''lock:r'', (Some ''id1'', Some 10))]\<rparr> 0 0
      = Some (Inr (False, DistributedLock_init ''r'' 10 False None ''id2'',
        \<lparr>max_size = 100, cleanup_interval = 60, stop_cleanup = False, thread_joins = [],
          cache = [(''lock:r'', (Some ''id1'', Some 10))]\<rparr>))
   \<and> locked ((DistributedLock_init ''r'' 10 False None ''id2'')\<lparr>locked := True\<rparr>)
   \<and> CacheManager_get
        \<lparr>max_size = 100, cleanup_interval = 60, stop_cleanup = False, thread_joins = [],
          cache = [(''lock:r'', (Some ''id1'', Some 10))]\<rparr> ''lock:r'' 1
      = Inr (Some ''id1'',
        \<lparr>max_size = 100, cleanup_interval = 60, stop_cleanup = False, thread_joins = [],
          cache = [(''lock:r'', (Some ''id1'', Some 10))]\<rparr>)
   \<and> stored_live [(''lock:r'', (Some ''id1'', Some 10))] 1 ''lock:r'' = Some (Some ''id1'')
   \<and> DistributedLock_release CacheManager_get CacheManager_delete
        ((DistributedLock_init ''r'' 10 False None ''id2'')\<lparr>locked := True\<rparr>)
        \<lparr>max_size = 100, cleanup_interval = 60, stop_cleanup = False, thread_joins = [],
          cache = [(''lock:r'', (Some ''id1'', Some 10))]\<rparr> 1
      = Inr ((DistributedLock_init ''r'' 10 False None ''id2'')\<lparr>locked := True\<rparr>,
        \<lparr>max_size = 100, cleanup_interval = 60, stop_cleanup = False, thread_joins = [],
          cache = [(''lock:r'', (Some ''id1'', Some 10))]\<rparr>)
   \<and> DistributedLock_release CacheManager_get CacheManager_delete
        ((DistributedLock_init ''r'' 10 False None ''id1'')\<lparr>locked := True\<rparr>)
        \<lparr>max_size = 100, cleanup_interval = 60, stop_cleanup = False, thread_joins = [],
          cache = [(''lock:r'', (Some ''id1'', Some 10))]\<rparr> 1
      = Inr ((DistributedLock_init ''r'' 10 False None ''id1'')\<lparr>locked := False\<rparr>,
        \<lparr>max_size = 100, cleanup_interval = 60, stop_cleanup = False, thread_joins = [],
          cache = []\<rparr>)"
  using release_ownership[where lk = "DistributedLock_init ''r'' 10 False None ''id2''"
      and mget = CacheManager_get and mdel = CacheManager_delete
      and s = "\<lparr>max_size = 100, cleanup_interval = 60, stop_cleanup = False, thread_joins = [],
          cache = [(''lock:r'', (Some ''id1'', Some 10))]\<rparr>" and now = 1
      and fsub = "(-)" and aget = CacheManager_get and aset = "CacheManager_set exact_float_add"
      and nm = "''r''" and tmo = 10 and blk = False and btmo = None and uid = "''id2''"
      and sa = "\<lparr>max_size = 100, cleanup_interval = 60, stop_cleanup = False, thread_joins = [],
          cache = [(''lock:r'', (Some ''id1'', Some 10))]\<rparr>" and ta = 0
      and lka = "DistributedLock_init ''r'' 10 False None ''id2''"
      and sa' = "\<lparr>max_size = 100, cleanup_interval = 60, stop_cleanup = False, thread_joins = [],
          cache = [(''lock:r'', (Some ''id1'', Some 10))]\<rparr>"
      and bget = CacheManager_get and bdel = CacheManager_delete and tb = 1
      and lkc = "(DistributedLock_init ''r'' 10 False None ''id2'')\<lparr>locked := True\<rparr>"
      and cget = CacheManager_get and cdel = CacheManager_delete
      and sc = "\<lparr>max_size = 100, cleanup_interval = 60, stop_cleanup = False, thread_joins = [],
          cache = [(''lock:r'', (Some ''id1'', Some 10))]\<rparr>" and tc = 1
      and cur = "Some ''id1''"
      and sc' = "\<lparr>max_size = 100, cleanup_interval = 60, stop_cleanup = False, thread_joins = [],
          cache = [(''lock:r'', (Some ''id1'', Some 10))]\<rparr>"
      and lkd = "(DistributedLock_init ''r'' 10 False None ''id2'')\<lparr>locked := True\<rparr>"
      and sd = "\<lparr>max_size = 100, cleanup_interval = 60, stop_cleanup = False, thread_joins = [],
          cache = [(''lock:r'', (Some ''id1'', Some 10))]\<rparr>" and td = 1
      and vd = "Some ''id1''"
      and lke = "(DistributedLock_init ''r'' 10 False None ''id1'')\<lparr>locked := True\<rparr>"
      and se = "\<lparr>max_size = 100, cleanup_interval = 60, stop_cleanup = False, thread_joins = [],
          cache = [(''lock:r'', (Some ''id1'', Some 10))]\<rparr>" and te = 1]
  by (simp add: DistributedLock_acquire.simps lock_defs mem_defs stored_live_def)

end
